theory Spec2Isabelle
  imports Main "HOL-Library.Word" "HOL-Library.Sublist"
begin

unbundle bit_operations_syntax

section \<open>Shared types of the library\<close>

text \<open>
  The return codes used by the two source files (the enumeration lives in
  \<^verbatim>\<open>mosquitto.h\<close>) and the two log levels passed to \<^verbatim>\<open>log__printf\<close>.
\<close>

datatype mosq_err = MOSQ_ERR_SUCCESS | MOSQ_ERR_NOMEM | MOSQ_ERR_INVAL | MOSQ_ERR_PROXY

datatype log_level = MOSQ_LOG_INFO | MOSQ_LOG_ERR

text \<open>
  The fields of \<^verbatim>\<open>struct mosquitto\<close> that the two files touch: \<^verbatim>\<open>mosq->sock\<close>,
  \<^verbatim>\<open>mosq->proxy.host\<close>, \<^verbatim>\<open>mosq->proxy.port\<close> and \<^verbatim>\<open>mosq->proxy.auth_header\<close>.
  A \<^verbatim>\<open>char *\<close> field is \<open>None\<close> when it is \<^verbatim>\<open>NULL\<close> and otherwise holds the
  characters before the terminating NUL.
\<close>

record mosquitto =
  sock :: int
  proxy_host :: "string option"
  proxy_port :: int
  proxy_auth_header :: "string option"

section \<open>The C library functions the code calls\<close>

definition NUL :: char where
  "NUL = CHR 0x00"

definition CRLF :: string where
  "CRLF = [CHR 0x0D, CHR 0x0A]"

text \<open>The C string stored at the start of a byte buffer: the bytes before the first NUL.\<close>

definition c_str :: "string \<Rightarrow> string" where
  "c_str buf = takeWhile (\<lambda>c. c \<noteq> NUL) buf"

text \<open>
  \<^verbatim>\<open>strstr(haystack, needle)\<close> on C strings: the offset of the first occurrence,
  \<open>None\<close> for the \<^verbatim>\<open>NULL\<close> result.
\<close>

fun strstr :: "string \<Rightarrow> string \<Rightarrow> nat option" where
  "strstr [] needle = (if needle = [] then Some 0 else None)"
| "strstr (c # cs) needle =
     (if prefix needle (c # cs) then Some 0 else map_option Suc (strstr cs needle))"

text \<open>
  \<^verbatim>\<open>strncmp(s1, s2, n)\<close> on C strings; only the sign of a non-zero result is
  specified by C.
\<close>

fun strncmp :: "string \<Rightarrow> string \<Rightarrow> nat \<Rightarrow> int" where
  "strncmp s1 s2 0 = 0"
| "strncmp [] [] (Suc n) = 0"
| "strncmp [] (b # bs) (Suc n) = - 1"
| "strncmp (a # as) [] (Suc n) = 1"
| "strncmp (a # as) (b # bs) (Suc n) =
     (if a = b then strncmp as bs n
      else if (of_char a :: nat) < of_char b then - 1 else 1)"

text \<open>The \<^verbatim>\<open>%d\<close> conversion of \<^verbatim>\<open>printf\<close>.\<close>

fun dec_nat :: "nat \<Rightarrow> string" where
  "dec_nat n =
     (if n < 10 then [char_of (48 + n)]
      else dec_nat (n div 10) @ [char_of (48 + n mod 10)])"

declare dec_nat.simps [simp del]

definition fmt_d :: "int \<Rightarrow> string" where
  "fmt_d i = (if i < 0 then CHR ''-'' # dec_nat (nat (- i)) else dec_nat (nat i))"

definition INT_MAX :: int where
  "INT_MAX = 2147483647"

text \<open>
  \<^verbatim>\<open>snprintf(buf, size, ...)\<close>, given the fully formatted text: the buffer receives
  at most \<open>sz - 1\<close> characters (and a NUL), the return value is the length of the
  full text, or negative when that length does not fit an \<^verbatim>\<open>int\<close>.
\<close>

definition snprintf :: "nat \<Rightarrow> string \<Rightarrow> string \<times> int" where
  "snprintf sz formatted =
     (take (sz - 1) formatted,
      if int (length formatted) > INT_MAX then - 1 else int (length formatted))"

text \<open>
  A store \<^verbatim>\<open>buf[i] = c\<close> into a buffer of \<open>length buf\<close> bytes. A store at or past
  the end of the buffer is undefined behaviour in C; here it is the result \<open>None\<close>.
\<close>

definition store :: "string \<Rightarrow> nat \<Rightarrow> char \<Rightarrow> string option" where
  "store buf i c = (if i < length buf then Some (buf[i := c]) else None)"

fun store_bytes :: "string \<Rightarrow> nat \<Rightarrow> string \<Rightarrow> string option" where
  "store_bytes buf i [] = Some buf"
| "store_bytes buf i (c # cs) =
     (case store buf i c of None \<Rightarrow> None | Some buf' \<Rightarrow> store_bytes buf' (Suc i) cs)"

section \<open>The environment: allocator, socket and log\<close>

text \<open>
  Every call the code makes to a collaborator is recorded, in order, with its
  arguments: the allocation and release of the response buffer, the formatted
  log messages (level, format string, arguments), the buffer handed to
  \<^verbatim>\<open>net__write\<close>, the timeout handed to \<^verbatim>\<open>poll\<close>, and for \<^verbatim>\<open>net__read\<close> the offset
  into the response buffer and the byte count requested.
\<close>

datatype effect =
    Call_malloc nat
  | Call_free
  | Call_log log_level string "string list"
  | Call_write string
  | Call_poll int
  | Call_read nat nat

text \<open>
  What the environment answers in one iteration of the accumulation loop: the
  return value of \<^verbatim>\<open>poll\<close> and the \<^verbatim>\<open>revents\<close> it reports (a \<^verbatim>\<open>short\<close>), and what
  the socket has for the next read: \<open>None\<close> when the read fails, otherwise the
  bytes ready to be read (none when the peer has closed).
\<close>

record io_step =
  poll_ret :: int
  poll_revents :: "16 word"
  read_avail :: "string option"

text \<open>
  The environment of one handshake: the allocator's answer (\<open>None\<close> when it fails,
  otherwise the arbitrary contents of the fresh block), the return value of
  \<^verbatim>\<open>net__write\<close>, the text of \<^verbatim>\<open>strerror(errno)\<close> at a failing call, and the answers
  for each loop iteration.
\<close>

record io_env =
  malloc_res :: "(nat \<Rightarrow> char) option"
  write_ret :: int
  errno_text :: string
  steps :: "nat \<Rightarrow> io_step"

text \<open>
  Modelled from the spec: \<^verbatim>\<open>mosquitto__malloc\<close> (declared in \<^verbatim>\<open>memory_mosq.h\<close>, not
  part of the two files) returns \<^verbatim>\<open>NULL\<close> when the allocation cannot be satisfied
  and otherwise a block of the requested size with unspecified contents.
\<close>

definition mosquitto__malloc :: "(nat \<Rightarrow> char) option \<Rightarrow> nat \<Rightarrow> string option" where
  "mosquitto__malloc heap sz = map_option (\<lambda>junk. map junk [0..<sz]) heap"

text \<open>
  Modelled from the spec: \<^verbatim>\<open>mosquitto__strdup\<close> (declared in \<^verbatim>\<open>memory_mosq.h\<close>)
  returns \<^verbatim>\<open>NULL\<close> when the allocation cannot be satisfied and otherwise a copy
  of the string.
\<close>

definition mosquitto__strdup :: "bool \<Rightarrow> string \<Rightarrow> string option" where
  "mosquitto__strdup ok s = (if ok then Some s else None)"

text \<open>
  Modelled from the spec: \<^verbatim>\<open>net__read\<close> (only declared in \<^verbatim>\<open>net_mosq_proxy.c\<close>) is a
  byte-stream read with the standard semantics: it returns a negative value on
  error, 0 when the peer has closed, and otherwise the number of bytes it stored,
  which is at most \<open>count\<close>. The result is the return value with the bytes stored.
\<close>

definition net__read :: "string option \<Rightarrow> nat \<Rightarrow> int \<times> string" where
  "net__read avail count =
     (case avail of
        None \<Rightarrow> (- 1, [])
      | Some bs \<Rightarrow> (int (length (take count bs)), take count bs))"

text \<open>\<^verbatim>\<open>POLLIN\<close> of \<^verbatim>\<open><poll.h>\<close> (its value on Linux).\<close>

definition POLLIN :: "16 word" where
  "POLLIN = 0x0001"

section \<open>\<^verbatim>\<open>mosquitto_proxy_set\<close> (\<^verbatim>\<open>mosquitto_proxy.c\<close>)\<close>

text \<open>
  The file holds two versions of the function; the second one (with the
  parameter \<^verbatim>\<open>auth_value\<close>) is the one the file settles on and the one modelled.
  The first one makes the same checks and handles allocation failure the same
  way, with \<^verbatim>\<open>username\<close> in the place of \<^verbatim>\<open>auth_value\<close>.
  The pointers \<^verbatim>\<open>mosq\<close>, \<^verbatim>\<open>host\<close> and \<^verbatim>\<open>auth_value\<close> may be \<^verbatim>\<open>NULL\<close>. The last two
  arguments are the allocator's answers to \<^verbatim>\<open>mosquitto__strdup\<close> (does it succeed)
  and to \<^verbatim>\<open>mosquitto__malloc\<close>. The result is the return code with the structure
  \<^verbatim>\<open>mosq\<close> points to afterwards.
\<close>

definition mosquitto_proxy_set ::
  "mosquitto option \<Rightarrow> string option \<Rightarrow> int \<Rightarrow> string option
     \<Rightarrow> bool \<Rightarrow> (nat \<Rightarrow> char) option \<Rightarrow> mosq_err \<times> mosquitto option" where
  "mosquitto_proxy_set mosq host port auth_value strdup_ok heap =
    (case mosq of
       None \<Rightarrow> (MOSQ_ERR_INVAL, None)
     | Some m \<Rightarrow>
        (case host of
           None \<Rightarrow> (MOSQ_ERR_INVAL, Some m)
         | Some h \<Rightarrow>
            if port \<le> 0 \<or> port > 65535 then (MOSQ_ERR_INVAL, Some m)
            else
              let m1 = (if proxy_host m \<noteq> None then m\<lparr>proxy_host := None\<rparr> else m);
                  m2 = (if proxy_auth_header m1 \<noteq> None
                        then m1\<lparr>proxy_auth_header := None\<rparr> else m1);
                  m3 = m2\<lparr>proxy_host := mosquitto__strdup strdup_ok h\<rparr>
              in if proxy_host m3 = None then (MOSQ_ERR_NOMEM, Some m3)
                 else
                   let m4 = m3\<lparr>proxy_port := port\<rparr>
                   in (case auth_value of
                         None \<Rightarrow> (MOSQ_ERR_SUCCESS, Some (m4\<lparr>proxy_auth_header := None\<rparr>))
                       | Some av \<Rightarrow>
                          if length av > 0 then
                            let prefix_s = ''Proxy-Authorization: '';
                                suffix_s = CRLF;
                                len = length prefix_s + length av + length suffix_s + 1;
                                m5 = m4\<lparr>proxy_auth_header :=
                                          map_option c_str (mosquitto__malloc heap len)\<rparr>
                            in if proxy_auth_header m5 = None
                               then (MOSQ_ERR_NOMEM, Some (m5\<lparr>proxy_host := None\<rparr>))
                               else (MOSQ_ERR_SUCCESS,
                                     Some (m5\<lparr>proxy_auth_header :=
                                       Some (fst (snprintf len (prefix_s @ av @ suffix_s)))\<rparr>))
                          else (MOSQ_ERR_SUCCESS, Some (m4\<lparr>proxy_auth_header := None\<rparr>)))))"

section \<open>\<^verbatim>\<open>net__proxy_connect\<close> (\<^verbatim>\<open>net_mosq_proxy.c\<close>)\<close>

definition request_size :: nat where
  "request_size = 1024"

definition response_size :: nat where
  "response_size = 2048"

definition connect_timeout_ms :: int where
  "connect_timeout_ms = 10000"

definition terminator :: string where
  "terminator = CRLF @ CRLF"

text \<open>
  The text the two \<^verbatim>\<open>snprintf\<close> calls format: the request line, the \<^verbatim>\<open>Host\<close>
  line, the stored authorization line when \<^verbatim>\<open>mosq->proxy.auth_header\<close> is not
  \<^verbatim>\<open>NULL\<close>, and the closing CRLF.
\<close>

definition format_request :: "string \<Rightarrow> int \<Rightarrow> string option \<Rightarrow> string" where
  "format_request dest_host dest_port auth_header =
     (case auth_header of
        Some a \<Rightarrow>
          ''CONNECT '' @ dest_host @ '':'' @ fmt_d dest_port @ '' HTTP/1.1'' @ CRLF @
          ''Host: '' @ dest_host @ '':'' @ fmt_d dest_port @ CRLF @
          a @
          CRLF
      | None \<Rightarrow>
          ''CONNECT '' @ dest_host @ '':'' @ fmt_d dest_port @ '' HTTP/1.1'' @ CRLF @
          ''Host: '' @ dest_host @ '':'' @ fmt_d dest_port @ CRLF @
          CRLF)"

text \<open>
  The local state of the function that the loop changes: the response buffer,
  the cursor \<^verbatim>\<open>total_read\<close>, and the calls made so far.
\<close>

record hs_state =
  response :: string
  total_read :: nat
  effects :: "effect list"

definition emit :: "hs_state \<Rightarrow> effect list \<Rightarrow> hs_state" where
  "emit s es = s\<lparr>effects := effects s @ es\<rparr>"

text \<open>
  How one iteration of the \<^verbatim>\<open>while\<close> loop ends: at the end of the body, at the
  \<^verbatim>\<open>break\<close>, at one of the \<^verbatim>\<open>return\<close> statements, or with a store outside the
  response buffer.
\<close>

datatype flow =
    Continue hs_state
  | Break hs_state
  | Return mosq_err hs_state
  | Out_of_bounds

text \<open>The body of the \<^verbatim>\<open>while\<close> loop (lines 76 to 113).\<close>

definition loop_body :: "string \<Rightarrow> io_step \<Rightarrow> hs_state \<Rightarrow> flow" where
  "loop_body errno_s st s =
    (let s1 = emit s [Call_poll connect_timeout_ms];
         n = poll_ret st
     in if n < 0 then
          Return MOSQ_ERR_PROXY
            (emit s1 [Call_free, Call_log MOSQ_LOG_ERR ''Proxy poll error: %s.'' [errno_s]])
        else if n = 0 then
          Return MOSQ_ERR_PROXY
            (emit s1 [Call_free, Call_log MOSQ_LOG_ERR ''Proxy connect timed out.'' []])
        else if poll_revents st AND POLLIN \<noteq> 0 then
          (let count = response_size - 1 - total_read s1;
               s2 = emit s1 [Call_read (total_read s1) count];
               (n, bytes) = net__read (read_avail st) count
           in if n \<le> 0 then
                Return MOSQ_ERR_PROXY
                  (emit s2
                    [Call_free,
                     if n = 0
                     then Call_log MOSQ_LOG_ERR ''Proxy connection closed prematurely.'' []
                     else Call_log MOSQ_LOG_ERR ''Error reading from proxy: %s.'' [errno_s]])
              else
                (case store_bytes (response s2) (total_read s2) bytes of
                   None \<Rightarrow> Out_of_bounds
                 | Some r1 \<Rightarrow>
                    let s3 = s2\<lparr>response := r1, total_read := total_read s2 + nat n\<rparr>
                    in (case store (response s3) (total_read s3) NUL of
                          None \<Rightarrow> Out_of_bounds
                        | Some r2 \<Rightarrow>
                           let s4 = s3\<lparr>response := r2\<rparr>
                           in if strstr (c_str (response s4)) terminator \<noteq> None
                              then Break s4
                              else Continue s4)))
        else
          Return MOSQ_ERR_PROXY
            (emit s1 [Call_free,
                      Call_log MOSQ_LOG_ERR ''Proxy socket error during connect.'' []]))"

text \<open>How the \<^verbatim>\<open>while\<close> loop as a whole ends.\<close>

datatype loop_exit =
    Left_loop hs_state
  | Returned mosq_err hs_state
  | Overrun

text \<open>
  The \<^verbatim>\<open>while\<close> loop (line 75), from iteration \<open>k\<close> on: iteration \<open>k\<close> gets the
  answers \<open>sts k\<close> of the environment.
\<close>

function accumulate :: "string \<Rightarrow> (nat \<Rightarrow> io_step) \<Rightarrow> nat \<Rightarrow> hs_state \<Rightarrow> loop_exit" where
  "accumulate errno_s sts k s =
     (if total_read s < response_size - 1 then
        (case loop_body errno_s (sts k) s of
           Continue s' \<Rightarrow> accumulate errno_s sts (Suc k) s'
         | Break s' \<Rightarrow> Left_loop s'
         | Return rc s' \<Rightarrow> Returned rc s'
         | Out_of_bounds \<Rightarrow> Overrun)
      else Left_loop s)"
  by pat_completeness auto
termination
proof (relation "measure (\<lambda>(e, sts, k, s). response_size - 1 - total_read s)")
  show "wf (measure (\<lambda>(e, sts, k, s). response_size - 1 - total_read s))"
    by simp
next
  fix errno_s :: string and sts :: "nat \<Rightarrow> io_step" and k :: nat
    and s :: hs_state and s' :: hs_state
  assume below: "total_read s < response_size - 1"
    and continue: "loop_body errno_s (sts k) s = Continue s'"
  from continue have "total_read s < total_read s'"
    by (auto simp: loop_body_def Let_def emit_def net__read_def
        split: if_splits option.splits prod.splits)
  with below show "((errno_s, sts, Suc k, s'), (errno_s, sts, k, s))
      \<in> measure (\<lambda>(e, sts, k, s). response_size - 1 - total_read s)"
    by simp
qed

declare accumulate.simps [simp del]

text \<open>
  Lines 116 to 139: the check that the terminator was received, and the check of
  the status line. The result is the return code with the final state, or \<open>None\<close>
  for a store outside the response buffer.
\<close>

definition validate :: "hs_state \<Rightarrow> (mosq_err \<times> hs_state) option" where
  "validate s =
    (if strstr (c_str (response s)) terminator = None then
       Some (MOSQ_ERR_PROXY,
             emit s [Call_free,
                     Call_log MOSQ_LOG_ERR
                       ''Proxy response headers too long or incomplete.'' []])
     else if strncmp (c_str (response s)) ''HTTP/1.1 200'' 12 \<noteq> 0
           \<and> strncmp (c_str (response s)) ''HTTP/1.0 200'' 12 \<noteq> 0 then
       (case strstr (c_str (response s)) CRLF of
          Some end_of_status_line \<Rightarrow>
            (case store (response s) end_of_status_line NUL of
               None \<Rightarrow> None
             | Some r1 \<Rightarrow>
                let s1 = emit (s\<lparr>response := r1\<rparr>)
                          [Call_log MOSQ_LOG_ERR ''Proxy CONNECT failed: %s''
                             [c_str r1]]
                in (case store (response s1) end_of_status_line (CHR 0x0D) of
                      None \<Rightarrow> None
                    | Some r2 \<Rightarrow>
                       Some (MOSQ_ERR_PROXY, emit (s1\<lparr>response := r2\<rparr>) [Call_free])))
        | None \<Rightarrow>
            Some (MOSQ_ERR_PROXY,
                  emit s [Call_log MOSQ_LOG_ERR ''Proxy CONNECT failed: %s''
                            [c_str (response s)],
                          Call_free]))
     else
       Some (MOSQ_ERR_SUCCESS,
             emit s [Call_log MOSQ_LOG_INFO
                       ''Successfully connected to MQTT broker via proxy.'' [],
                     Call_free]))"

text \<open>
  The state in which the loop is entered, given the fresh response buffer and
  the request that was written.
\<close>

definition loop_entry :: "string \<Rightarrow> string \<Rightarrow> hs_state" where
  "loop_entry response0 written =
     \<lparr>response = response0, total_read = 0,
      effects = [Call_malloc response_size, Call_write written]\<rparr>"

text \<open>
  The whole function. The result is the return code with the calls made, in
  order; \<open>None\<close> stands for a store outside the response buffer.
\<close>

definition net__proxy_connect ::
  "mosquitto \<Rightarrow> string \<Rightarrow> int \<Rightarrow> io_env \<Rightarrow> (mosq_err \<times> effect list) option" where
  "net__proxy_connect mosq dest_host dest_port env =
    (case mosquitto__malloc (malloc_res env) response_size of
       None \<Rightarrow> Some (MOSQ_ERR_NOMEM, [Call_malloc response_size])
     | Some response0 \<Rightarrow>
        let (request, len) =
              snprintf request_size
                (format_request dest_host dest_port (proxy_auth_header mosq))
        in if len \<le> 0 \<or> nat len \<ge> request_size then
             Some (MOSQ_ERR_PROXY,
                   [Call_malloc response_size, Call_free,
                    Call_log MOSQ_LOG_ERR ''Proxy CONNECT request too long.'' []])
           else
             let written = take (nat len) request;
                 n = write_ret env
             in if n \<noteq> len then
                  Some (MOSQ_ERR_PROXY,
                        [Call_malloc response_size, Call_write written, Call_free,
                         Call_log MOSQ_LOG_ERR ''Error writing to proxy: %s.''
                           [errno_text env]])
                else
                  (case accumulate (errno_text env) (steps env) 0
                          (loop_entry response0 written) of
                     Returned rc s \<Rightarrow> Some (rc, effects s)
                   | Left_loop s \<Rightarrow> map_option (\<lambda>(rc, s'). (rc, effects s')) (validate s)
                   | Overrun \<Rightarrow> None))"

section \<open>Notions used in the statements\<close>

text \<open>
  The calls the loop may make while it goes on: a poll with the configured
  timeout, and a read whose target range ends at the last but one byte of the
  response buffer.
\<close>

fun loop_call_ok :: "effect \<Rightarrow> bool" where
  "loop_call_ok (Call_poll t) = (t = connect_timeout_ms)"
| "loop_call_ok (Call_read off cnt) = (off + cnt = response_size - 1)"
| "loop_call_ok _ = False"

text \<open>The response buffer has its size and the cursor leaves room for the final NUL.\<close>

definition buf_ok :: "hs_state \<Rightarrow> bool" where
  "buf_ok s \<longleftrightarrow> length (response s) = response_size \<and> total_read s \<le> response_size - 1"

text \<open>The error messages of the \<^verbatim>\<open>return\<close> statements inside the loop.\<close>

definition loop_failure_formats :: "string list" where
  "loop_failure_formats =
     [''Proxy poll error: %s.'', ''Proxy connect timed out.'',
      ''Proxy connection closed prematurely.'', ''Error reading from proxy: %s.'',
      ''Proxy socket error during connect.'']"

text \<open>The error messages of all the \<^verbatim>\<open>return\<close> statements that report \<open>MOSQ_ERR_PROXY\<close>.\<close>

definition failure_formats :: "string list" where
  "failure_formats =
     [''Proxy CONNECT request too long.'', ''Error writing to proxy: %s.'']
     @ loop_failure_formats
     @ [''Proxy response headers too long or incomplete.'', ''Proxy CONNECT failed: %s'']"

text \<open>The messages logged, in order: level and format string.\<close>

fun logged :: "effect list \<Rightarrow> (log_level \<times> string) list" where
  "logged [] = []"
| "logged (Call_log lvl fmt args # es) = (lvl, fmt) # logged es"
| "logged (e # es) = logged es"

fun is_poll :: "effect \<Rightarrow> bool" where
  "is_poll (Call_poll t) = True"
| "is_poll _ = False"

text \<open>
  The environment delivers the fragments \<open>frags\<close>, one per iteration from
  iteration \<open>k\<close> on: each poll reports an event with \<^verbatim>\<open>POLLIN\<close> and the socket
  then has exactly the next fragment, which is not empty.
\<close>

fun delivers :: "(nat \<Rightarrow> io_step) \<Rightarrow> nat \<Rightarrow> string list \<Rightarrow> bool" where
  "delivers sts k [] = True"
| "delivers sts k (f # fs) =
     (0 < poll_ret (sts k) \<and> poll_revents (sts k) AND POLLIN \<noteq> 0
      \<and> read_avail (sts k) = Some f \<and> f \<noteq> [] \<and> delivers sts (Suc k) fs)"

text \<open>
  The calls of iterations that read the fragments \<open>frags\<close> one after the other,
  the first at cursor \<open>off\<close>: each read is asked to store at the cursor, which
  then advances by the length of the fragment.
\<close>

fun reads_trace :: "nat \<Rightarrow> string list \<Rightarrow> effect list" where
  "reads_trace off [] = []"
| "reads_trace off (f # fs) =
     [Call_poll connect_timeout_ms, Call_read off (response_size - 1 - off)]
     @ reads_trace (off + length f) fs"

text \<open>What \<^verbatim>\<open>strstr(response, terminator)\<close> answers when the buffer starts with \<open>bytes\<close>
  followed by a NUL.\<close>

definition has_terminator :: "string \<Rightarrow> bool" where
  "has_terminator bytes \<longleftrightarrow> strstr (c_str bytes) terminator \<noteq> None"

text \<open>
  The response buffer holds the accumulated bytes \<open>acc\<close>: they are its first
  bytes, the cursor is their number, and once something was read a NUL follows
  them.
\<close>

definition holds :: "hs_state \<Rightarrow> string \<Rightarrow> bool" where
  "holds s acc \<longleftrightarrow>
     length (response s) = response_size \<and> total_read s = length acc
     \<and> length acc \<le> response_size - 1 \<and> take (length acc) (response s) = acc
     \<and> (acc \<noteq> [] \<longrightarrow> response s ! length acc = NUL)"

text \<open>
  The bytes the socket has in iteration \<open>k\<close> (none when the read fails), and the
  chunks of the first \<open>n\<close> iterations.
\<close>

definition chunk :: "(nat \<Rightarrow> io_step) \<Rightarrow> nat \<Rightarrow> string" where
  "chunk sts k = (case read_avail (sts k) of Some bs \<Rightarrow> bs | None \<Rightarrow> [])"

definition first_chunks :: "(nat \<Rightarrow> io_step) \<Rightarrow> nat \<Rightarrow> string list" where
  "first_chunks sts n = map (chunk sts) [0..<n]"

text \<open>In iteration \<open>k\<close> the wait reports \<^verbatim>\<open>POLLIN\<close> and the socket has bytes.\<close>

definition readable :: "(nat \<Rightarrow> io_step) \<Rightarrow> nat \<Rightarrow> bool" where
  "readable sts k \<longleftrightarrow>
     0 < poll_ret (sts k) \<and> poll_revents (sts k) AND POLLIN \<noteq> 0 \<and> chunk sts k \<noteq> []"

text \<open>
  The authorization line that \<^verbatim>\<open>mosquitto_proxy_set\<close> is to store for a value:
  none for a \<^verbatim>\<open>NULL\<close> or empty value.
\<close>

definition auth_line :: "string option \<Rightarrow> string option" where
  "auth_line auth_value =
     (case auth_value of
        None \<Rightarrow> None
      | Some av \<Rightarrow> if av = [] then None else Some (''Proxy-Authorization: '' @ av @ CRLF))"

text \<open>The number that a string of decimal digits denotes.\<close>

definition digits_value :: "string \<Rightarrow> nat" where
  "digits_value ds = foldl (\<lambda>v c. 10 * v + (of_char c - 48)) 0 ds"

section \<open>Example inputs\<close>

text \<open>
  A client without proxy authorization, and environments in which the
  allocation succeeds, the request to \<^verbatim>\<open>example.com:1883\<close> (61 bytes) is written in
  full, and the loop iterations get the listed answers; a wait after the last
  listed answer sees no event.
\<close>

definition example_mosq :: mosquitto where
  "example_mosq =
     \<lparr>sock = 3, proxy_host = Some ''proxy.local'', proxy_port = 3128,
      proxy_auth_header = None\<rparr>"

definition ready_with :: "string \<Rightarrow> io_step" where
  "ready_with bs = \<lparr>poll_ret = 1, poll_revents = POLLIN, read_avail = Some bs\<rparr>"

definition no_event :: io_step where
  "no_event = \<lparr>poll_ret = 0, poll_revents = 0, read_avail = None\<rparr>"

definition example_env :: "io_step list \<Rightarrow> io_env" where
  "example_env answers =
     \<lparr>malloc_res = Some (\<lambda>i. CHR ''?''), write_ret = 61, errno_text = ''EIO'',
      steps = (\<lambda>k. if k < length answers then answers ! k else no_event)\<rparr>"

definition example_request :: string where
  "example_request =
     ''CONNECT example.com:1883 HTTP/1.1'' @ CRLF @ ''Host: example.com:1883'' @ CRLF @ CRLF"

text \<open>An environment in which every read delivers the one byte \<^verbatim>\<open>a\<close>.\<close>

definition trickle_env :: io_env where
  "trickle_env =
     \<lparr>malloc_res = Some (\<lambda>i. CHR ''?''), write_ret = 61, errno_text = ''EIO'',
      steps = (\<lambda>k. ready_with ''a'')\<rparr>"

section \<open>Facts about the library functions\<close>

lemma strstr_None_iff: "strstr h n = None \<longleftrightarrow> \<not> sublist n h"
  by (induction h) (auto simp: sublist_Cons_right)

lemma strstr_Some_bound: "strstr h n = Some i \<Longrightarrow> i + length n \<le> length h"
proof (induction h arbitrary: i)
  case Nil
  then show ?case by (simp split: if_splits)
next
  case (Cons c cs)
  show ?case
  proof (cases "prefix n (c # cs)")
    case True
    with Cons.prems show ?thesis using prefix_length_le [of n "c # cs"] by simp
  next
    case False
    with Cons.prems obtain j where "strstr cs n = Some j" and "i = Suc j"
      by auto
    with Cons.IH [of j] show ?thesis by simp
  qed
qed

lemma strncmp_0_iff: "strncmp a b n = 0 \<longleftrightarrow> take n a = take n b"
  by (induction a b n rule: strncmp.induct) auto

lemma c_str_append_NUL: "c_str (a @ NUL # rest) = c_str a"
  by (induction a) (auto simp: c_str_def)

lemma c_str_NUL_free: "NUL \<notin> set a \<Longrightarrow> c_str a = a"
  by (auto simp: c_str_def)

lemma length_c_str: "length (c_str buf) \<le> length buf"
  by (simp add: c_str_def length_takeWhile_le)

lemma prefix_c_str: "prefix (c_str buf) buf"
  unfolding c_str_def by (metis prefixI takeWhile_dropWhile_id)

lemma store_bytes_in_bounds:
  "i + length cs \<le> length buf \<Longrightarrow>
     store_bytes buf i cs = Some (take i buf @ cs @ drop (i + length cs) buf)"
proof (induction cs arbitrary: buf i)
  case Nil
  then show ?case by simp
next
  case (Cons c cs)
  from Cons.prems have i: "i < length buf" by simp
  have upd: "buf[i := c] = take i buf @ c # drop (Suc i) buf"
    using i by (simp add: upd_conv_take_nth_drop)
  have "store_bytes (buf[i := c]) (Suc i) cs
      = Some (take (Suc i) (buf[i := c]) @ cs @ drop (Suc i + length cs) (buf[i := c]))"
    using Cons.prems by (intro Cons.IH) simp
  also have "take (Suc i) (buf[i := c]) = take i buf @ [c]"
    using i by (simp add: take_Suc_conv_app_nth)
  also have "drop (Suc i + length cs) (buf[i := c]) = drop (i + length (c # cs)) buf"
    by simp
  finally show ?case using i by (simp add: store_def)
qed

section \<open>One iteration of the loop\<close>

lemma store_NUL_after:
  assumes "i + length cs < length buf"
  shows "store (take i buf @ cs @ drop (i + length cs) buf) (i + length cs) NUL
    = Some (take i buf @ cs @ NUL # drop (Suc (i + length cs)) buf)"
proof -
  let ?j = "i + length cs"
  have split: "drop ?j buf = buf ! ?j # drop (Suc ?j) buf"
    using assms by (simp add: Cons_nth_drop_Suc)
  have len: "length (take i buf @ cs) = ?j"
    using assms by simp
  have "(take i buf @ cs @ drop ?j buf)[?j := NUL]
      = ((take i buf @ cs) @ buf ! ?j # drop (Suc ?j) buf)[length (take i buf @ cs) := NUL]"
    using split len by simp
  also have "\<dots> = (take i buf @ cs) @ NUL # drop (Suc ?j) buf"
    by (rule list_update_length)
  finally have "(take i buf @ cs @ drop ?j buf)[?j := NUL]
      = take i buf @ cs @ NUL # drop (Suc ?j) buf"
    by simp
  moreover have "?j < length (take i buf @ cs @ drop ?j buf)"
    using assms by simp
  ultimately show ?thesis
    by (simp add: store_def)
qed

lemma loop_body_read:
  assumes len: "length (response s) = response_size"
    and below: "total_read s < response_size - 1"
    and ready: "0 < poll_ret st" "poll_revents st AND POLLIN \<noteq> 0"
    and avail: "read_avail st = Some bs" "bs \<noteq> []"
    and d: "d = take (response_size - 1 - total_read s) bs"
    and s': "s' = \<lparr>response = take (total_read s) (response s) @ d @
                      NUL # drop (Suc (total_read s + length d)) (response s),
                  total_read = total_read s + length d,
                  effects = effects s @ [Call_poll connect_timeout_ms,
                    Call_read (total_read s) (response_size - 1 - total_read s)]\<rparr>"
  shows "loop_body e st s =
    (if strstr (c_str (response s')) terminator \<noteq> None then Break s' else Continue s')"
proof -
  have dlen: "0 < length d" "total_read s + length d < length (response s)"
    using below avail len d by (auto simp: min_def)
  have d': "take (response_size - Suc (total_read s)) bs = d"
    "min (length bs) (response_size - Suc (total_read s)) = length d"
    using d by simp_all
  have st1: "store_bytes (response s) (total_read s) d
      = Some (take (total_read s) (response s) @ d @ drop (total_read s + length d) (response s))"
    using dlen by (intro store_bytes_in_bounds) simp
  have st2: "store (take (total_read s) (response s) @ d @ drop (total_read s + length d) (response s))
       (total_read s + length d) NUL
      = Some (take (total_read s) (response s) @ d @ NUL # drop (Suc (total_read s + length d)) (response s))"
    using dlen by (intro store_NUL_after) simp
  show ?thesis
    using ready dlen(1)
    by (simp add: loop_body_def Let_def emit_def net__read_def avail d' st1 st2 s')
qed

lemma loop_body_poll_error:
  "poll_ret st < 0 \<Longrightarrow> loop_body e st s = Return MOSQ_ERR_PROXY
     (emit s [Call_poll connect_timeout_ms, Call_free,
              Call_log MOSQ_LOG_ERR ''Proxy poll error: %s.'' [e]])"
  by (simp add: loop_body_def Let_def emit_def)

lemma loop_body_timeout:
  "poll_ret st = 0 \<Longrightarrow> loop_body e st s = Return MOSQ_ERR_PROXY
     (emit s [Call_poll connect_timeout_ms, Call_free,
              Call_log MOSQ_LOG_ERR ''Proxy connect timed out.'' []])"
  by (simp add: loop_body_def Let_def emit_def)

lemma loop_body_no_POLLIN:
  "0 < poll_ret st \<Longrightarrow> poll_revents st AND POLLIN = 0 \<Longrightarrow>
   loop_body e st s = Return MOSQ_ERR_PROXY
     (emit s [Call_poll connect_timeout_ms, Call_free,
              Call_log MOSQ_LOG_ERR ''Proxy socket error during connect.'' []])"
  by (simp add: loop_body_def Let_def emit_def)

lemma loop_body_read_error:
  "0 < poll_ret st \<Longrightarrow> poll_revents st AND POLLIN \<noteq> 0 \<Longrightarrow> read_avail st = None \<Longrightarrow>
   loop_body e st s = Return MOSQ_ERR_PROXY
     (emit s [Call_poll connect_timeout_ms,
              Call_read (total_read s) (response_size - 1 - total_read s), Call_free,
              Call_log MOSQ_LOG_ERR ''Error reading from proxy: %s.'' [e]])"
  by (simp add: loop_body_def Let_def emit_def net__read_def)

lemma loop_body_closed:
  "0 < poll_ret st \<Longrightarrow> poll_revents st AND POLLIN \<noteq> 0 \<Longrightarrow> read_avail st = Some [] \<Longrightarrow>
   loop_body e st s = Return MOSQ_ERR_PROXY
     (emit s [Call_poll connect_timeout_ms,
              Call_read (total_read s) (response_size - 1 - total_read s), Call_free,
              Call_log MOSQ_LOG_ERR ''Proxy connection closed prematurely.'' []])"
  by (simp add: loop_body_def Let_def emit_def net__read_def)

text \<open>The ways one iteration can go, by what the environment answers.\<close>

lemma io_step_cases:
  obtains (poll_error) "poll_ret st < 0"
  | (timeout) "poll_ret st = 0"
  | (no_POLLIN) "0 < poll_ret st" "poll_revents st AND POLLIN = 0"
  | (read_error) "0 < poll_ret st" "poll_revents st AND POLLIN \<noteq> 0" "read_avail st = None"
  | (closed) "0 < poll_ret st" "poll_revents st AND POLLIN \<noteq> 0" "read_avail st = Some []"
  | (bytes) bs where "0 < poll_ret st" "poll_revents st AND POLLIN \<noteq> 0"
      "read_avail st = Some bs" "bs \<noteq> []"
proof (cases "poll_ret st < 0")
  case True
  then show ?thesis by (rule poll_error)
next
  case False
  show ?thesis
  proof (cases "poll_ret st = 0")
    case True
    then show ?thesis by (rule timeout)
  next
    case nz: False
    with False have pos: "0 < poll_ret st" by simp
    show ?thesis
    proof (cases "poll_revents st AND POLLIN = 0")
      case True
      with pos show ?thesis by (rule no_POLLIN)
    next
      case pin: False
      show ?thesis
      proof (cases "read_avail st")
        case None
        with pos pin show ?thesis by (rule read_error)
      next
        case (Some bs)
        with pos pin show ?thesis
          by (cases "bs = []") (auto intro: closed bytes)
      qed
    qed
  qed
qed

text \<open>
  An iteration that goes on or breaks has polled once and read once, within
  the buffer, and leaves the buffer and the cursor in range.
\<close>

lemma loop_body_goes_on:
  assumes ok: "buf_ok s" and below: "total_read s < response_size - 1"
    and go: "loop_body e st s = Continue s' \<or> loop_body e st s = Break s'"
  shows "buf_ok s' \<and> total_read s < total_read s'
    \<and> effects s' = effects s @ [Call_poll connect_timeout_ms,
         Call_read (total_read s) (response_size - 1 - total_read s)]"
proof (cases st rule: io_step_cases)
  case (bytes bs)
  define d where "d = take (response_size - 1 - total_read s) bs"
  define t where "t = \<lparr>response = take (total_read s) (response s) @ d @
                      NUL # drop (Suc (total_read s + length d)) (response s),
                  total_read = total_read s + length d,
                  effects = effects s @ [Call_poll connect_timeout_ms,
                    Call_read (total_read s) (response_size - 1 - total_read s)]\<rparr>"
  from ok have len: "length (response s) = response_size"
    by (simp add: buf_ok_def)
  have body: "loop_body e st s =
      (if strstr (c_str (response t)) terminator \<noteq> None then Break t else Continue t)"
    using len below bytes d_def t_def by (rule loop_body_read)
  with go have "s' = t"
    by (auto split: if_splits)
  moreover have "0 < length d" "total_read s + length d \<le> response_size - 1"
    using below bytes by (auto simp: d_def min_def)
  ultimately show ?thesis
    using len below by (auto simp: t_def buf_ok_def)
qed (use go in \<open>simp_all add: loop_body_poll_error loop_body_timeout loop_body_no_POLLIN
      loop_body_read_error loop_body_closed\<close>)

lemma loop_body_in_bounds:
  assumes ok: "buf_ok s" and below: "total_read s < response_size - 1"
  shows "loop_body e st s \<noteq> Out_of_bounds"
proof (cases st rule: io_step_cases)
  case (bytes bs)
  from ok have "length (response s) = response_size"
    by (simp add: buf_ok_def)
  from loop_body_read [OF this below bytes refl refl, of e] show ?thesis
    by (simp split: if_splits)
qed (simp_all add: loop_body_poll_error loop_body_timeout loop_body_no_POLLIN
      loop_body_read_error loop_body_closed)

text \<open>
  An iteration that returns reports \<open>MOSQ_ERR_PROXY\<close>, after the poll and at most
  one read, a release of the buffer and one error message.
\<close>

lemma loop_body_returns:
  assumes ok: "buf_ok s" and below: "total_read s < response_size - 1"
    and ret: "loop_body e st s = Return rc s'"
  shows "rc = MOSQ_ERR_PROXY \<and>
    (\<exists>ios fmt args. effects s' = effects s @ Call_poll connect_timeout_ms # ios
         @ [Call_free, Call_log MOSQ_LOG_ERR fmt args]
       \<and> (ios = [] \<or> ios = [Call_read (total_read s) (response_size - 1 - total_read s)])
       \<and> fmt \<in> set loop_failure_formats
       \<and> (fmt = ''Proxy connect timed out.'' \<longrightarrow> poll_ret st = 0))"
proof (cases st rule: io_step_cases)
  case poll_error
  with ret show ?thesis
    by (auto simp: loop_body_poll_error emit_def loop_failure_formats_def)
next
  case timeout
  with ret show ?thesis
    by (auto simp: loop_body_timeout emit_def loop_failure_formats_def)
next
  case no_POLLIN
  with ret show ?thesis
    by (auto simp: loop_body_no_POLLIN emit_def loop_failure_formats_def)
next
  case read_error
  with ret show ?thesis
    by (auto simp: loop_body_read_error emit_def loop_failure_formats_def)
next
  case closed
  with ret show ?thesis
    by (auto simp: loop_body_closed emit_def loop_failure_formats_def)
next
  case (bytes bs)
  from ok have "length (response s) = response_size"
    by (simp add: buf_ok_def)
  from loop_body_read [OF this below bytes refl refl, of e] have "loop_body e st s \<noteq> Return rc s'"
    by (simp split: if_splits)
  with ret show ?thesis by simp
qed

section \<open>The loop on a response delivered in fragments\<close>

lemma holds_c_str:
  assumes "holds s acc" "acc \<noteq> []"
  shows "c_str (response s) = c_str acc"
proof -
  from assms have lt: "length acc < length (response s)"
    and tk: "take (length acc) (response s) = acc"
    and nul: "response s ! length acc = NUL"
    by (simp_all add: holds_def response_size_def)
  have "response s = take (length acc) (response s) @ drop (length acc) (response s)"
    by simp
  also have "drop (length acc) (response s)
      = response s ! length acc # drop (Suc (length acc)) (response s)"
    using lt by (simp add: Cons_nth_drop_Suc)
  finally have "response s = acc @ NUL # drop (Suc (length acc)) (response s)"
    using tk nul by simp
  then have "c_str (response s) = c_str (acc @ NUL # drop (Suc (length acc)) (response s))"
    by simp
  then show ?thesis
    by (simp only: c_str_append_NUL)
qed

lemma holds_buf_ok: "holds s acc \<Longrightarrow> buf_ok s"
  by (simp add: holds_def buf_ok_def)

text \<open>One iteration that reads the fragment \<open>f\<close>.\<close>

lemma loop_body_fragment:
  assumes h: "holds s acc" and below: "length acc < response_size - 1"
    and ready: "0 < poll_ret st" "poll_revents st AND POLLIN \<noteq> 0"
    and avail: "read_avail st = Some f" "f \<noteq> []"
  shows "\<exists>t. holds t (take (response_size - 1) (acc @ f))
      \<and> effects t = effects s @ [Call_poll connect_timeout_ms,
                                  Call_read (length acc) (response_size - 1 - length acc)]
      \<and> loop_body e st s =
         (if has_terminator (take (response_size - 1) (acc @ f)) then Break t else Continue t)"
proof -
  define d where "d = take (response_size - 1 - total_read s) f"
  define t where "t = \<lparr>response = take (total_read s) (response s) @ d @
                      NUL # drop (Suc (total_read s + length d)) (response s),
                  total_read = total_read s + length d,
                  effects = effects s @ [Call_poll connect_timeout_ms,
                    Call_read (total_read s) (response_size - 1 - total_read s)]\<rparr>"
  from h have len: "length (response s) = response_size"
    and tot: "total_read s = length acc"
    and tk: "take (length acc) (response s) = acc"
    by (simp_all add: holds_def)
  have acc': "take (response_size - 1) (acc @ f) = acc @ d"
    using below by (simp add: d_def tot)
  have dlen: "d \<noteq> []" "length acc + length d \<le> response_size - 1"
    using below avail by (auto simp: d_def tot min_def)
  have resp: "response t = (acc @ d) @ NUL # drop (Suc (length acc + length d)) (response s)"
    by (simp add: t_def tot tk)
  have "holds t (acc @ d)"
    unfolding holds_def
  proof (intro conjI impI)
    show "length (response t) = response_size"
      using len dlen below by (simp add: t_def tot)
    show "total_read t = length (acc @ d)"
      by (simp add: t_def tot)
    show "length (acc @ d) \<le> response_size - 1"
      using dlen by simp
    show "take (length (acc @ d)) (response t) = acc @ d"
      unfolding resp by simp
    show "response t ! length (acc @ d) = NUL"
      unfolding resp by (simp only: nth_append_length)
  qed
  moreover have "effects t = effects s @ [Call_poll connect_timeout_ms,
      Call_read (length acc) (response_size - 1 - length acc)]"
    by (simp add: t_def tot)
  moreover have "c_str (response t) = c_str (acc @ d)"
    unfolding resp by (simp only: c_str_append_NUL)
  then have "loop_body e st s = (if has_terminator (acc @ d) then Break t else Continue t)"
    using loop_body_read [OF len _ ready avail d_def t_def, of e] below
    by (simp add: tot has_terminator_def)
  ultimately show ?thesis
    unfolding acc' by blast
qed

lemma accumulate_fragments:
  assumes "holds s acc" and "delivers sts k frags" and "frags \<noteq> []"
    and "length (acc @ concat (butlast frags)) < response_size - 1"
    and "\<And>i. 0 < i \<Longrightarrow> i < length frags \<Longrightarrow> \<not> has_terminator (acc @ concat (take i frags))"
  shows "\<exists>s'. holds s' (take (response_size - 1) (acc @ concat frags))
      \<and> effects s' = effects s @ reads_trace (length acc) frags
      \<and> accumulate e sts k s =
         (if has_terminator (take (response_size - 1) (acc @ concat frags))
          then Left_loop s' else accumulate e sts (k + length frags) s')"
  using assms
proof (induction frags arbitrary: s acc k)
  case Nil
  then show ?case by simp
next
  case (Cons f fs)
  from Cons.prems(4) have below: "length acc < response_size - 1"
    by simp
  from Cons.prems(1) have tot: "total_read s = length acc"
    by (simp add: holds_def)
  from Cons.prems(2) have ready: "0 < poll_ret (sts k)" "poll_revents (sts k) AND POLLIN \<noteq> 0"
    and avail: "read_avail (sts k) = Some f" "f \<noteq> []"
    and rest: "delivers sts (Suc k) fs"
    by simp_all
  from loop_body_fragment [OF Cons.prems(1) below ready avail, of e]
  obtain t where t: "holds t (take (response_size - 1) (acc @ f))"
    and eff: "effects t = effects s @ [Call_poll connect_timeout_ms,
        Call_read (length acc) (response_size - 1 - length acc)]"
    and body: "loop_body e (sts k) s =
      (if has_terminator (take (response_size - 1) (acc @ f)) then Break t else Continue t)"
    by blast
  have unfold: "accumulate e sts k s =
      (if has_terminator (take (response_size - 1) (acc @ f))
       then Left_loop t else accumulate e sts (Suc k) t)"
    using below by (subst accumulate.simps) (simp add: tot body)
  show ?case
  proof (cases "fs = []")
    case True
    with t eff unfold show ?thesis by auto
  next
    case False
    with Cons.prems(4) have fits: "length (acc @ f) < response_size - 1"
      by simp
    then have whole: "take (response_size - 1) (acc @ f) = acc @ f"
      by simp
    from Cons.prems(5) [of 1] False have noterm: "\<not> has_terminator (acc @ f)"
      by simp
    have IH: "\<exists>s'. holds s' (take (response_size - 1) ((acc @ f) @ concat fs))
        \<and> effects s' = effects t @ reads_trace (length (acc @ f)) fs
        \<and> accumulate e sts (Suc k) t =
           (if has_terminator (take (response_size - 1) ((acc @ f) @ concat fs))
            then Left_loop s' else accumulate e sts (Suc k + length fs) s')"
    proof (rule Cons.IH)
      show "holds t (acc @ f)"
        using t whole by simp
      show "delivers sts (Suc k) fs"
        by (rule rest)
      show "fs \<noteq> []"
        by (rule False)
      show "length ((acc @ f) @ concat (butlast fs)) < response_size - 1"
        using Cons.prems(4) False by simp
      show "\<not> has_terminator ((acc @ f) @ concat (take i fs))"
        if "0 < i" "i < length fs" for i
        using Cons.prems(5) [of "Suc i"] that by simp
    qed
    then obtain s' where "holds s' (take (response_size - 1) ((acc @ f) @ concat fs))"
      and "effects s' = effects t @ reads_trace (length (acc @ f)) fs"
      and "accumulate e sts (Suc k) t =
           (if has_terminator (take (response_size - 1) ((acc @ f) @ concat fs))
            then Left_loop s' else accumulate e sts (Suc k + length fs) s')"
      by blast
    with unfold whole noterm eff show ?thesis
      by auto
  qed
qed

section \<open>The loop in any environment\<close>

lemma loop_body_goes_on_ready:
  assumes "buf_ok s" and "total_read s < response_size - 1"
    and "loop_body e st s = Continue s' \<or> loop_body e st s = Break s'"
  shows "0 < poll_ret st \<and> poll_revents st AND POLLIN \<noteq> 0"
  using assms(3)
  by (cases st rule: io_step_cases)
    (simp_all add: loop_body_poll_error loop_body_timeout loop_body_no_POLLIN
      loop_body_read_error loop_body_closed)

text \<open>
  However the environment answers, the loop never stores outside the buffer.
  It is left with the buffer and cursor in range, or it returns from the body
  of some iteration \<open>j\<close>; until then it has only polled (once per iteration, each
  time with an event) and read, within the buffer.
\<close>

lemma accumulate_exits:
  assumes "buf_ok s"
  shows "case accumulate e sts k s of
      Left_loop s' \<Rightarrow> buf_ok s'
        \<and> (\<exists>ios. effects s' = effects s @ ios \<and> list_all loop_call_ok ios)
    | Returned rc s' \<Rightarrow> (\<exists>j t ios. k \<le> j \<and> buf_ok t \<and> total_read t < response_size - 1
          \<and> loop_body e (sts j) t = Return rc s'
          \<and> effects t = effects s @ ios \<and> list_all loop_call_ok ios
          \<and> length (filter is_poll ios) = j - k
          \<and> (\<forall>i. k \<le> i \<and> i < j \<longrightarrow> 0 < poll_ret (sts i)))
    | Overrun \<Rightarrow> False"
  using assms
proof (induction e sts k s rule: accumulate.induct)
  case (1 e sts k s)
  show ?case
  proof (cases "total_read s < response_size - 1")
    case False
    then have "accumulate e sts k s = Left_loop s"
      by (subst accumulate.simps) simp
    with "1.prems" show ?thesis by simp
  next
    case below: True
    show ?thesis
    proof (cases "loop_body e (sts k) s")
      case (Continue s1)
      have acc: "accumulate e sts k s = accumulate e sts (Suc k) s1"
        using below Continue by (subst accumulate.simps) simp
      from loop_body_goes_on [OF "1.prems" below, of e "sts k" s1] Continue
      have ok1: "buf_ok s1"
        and eff1: "effects s1 = effects s @ [Call_poll connect_timeout_ms,
            Call_read (total_read s) (response_size - 1 - total_read s)]"
        by simp_all
      from loop_body_goes_on_ready [OF "1.prems" below, of e "sts k" s1] Continue
      have ready: "0 < poll_ret (sts k)"
        by simp
      have calls: "list_all loop_call_ok [Call_poll connect_timeout_ms,
            Call_read (total_read s) (response_size - 1 - total_read s)]"
        using below by simp
      note IH = "1.IH" [OF below Continue ok1]
      show ?thesis
      proof (cases "accumulate e sts (Suc k) s1")
        case (Left_loop s')
        with IH obtain ios where "buf_ok s'" "effects s' = effects s1 @ ios"
          "list_all loop_call_ok ios"
          by auto
        with eff1 calls have "buf_ok s' \<and> (\<exists>ios. effects s' = effects s @ ios
            \<and> list_all loop_call_ok ios)"
          by (intro conjI exI [of _ "[Call_poll connect_timeout_ms,
            Call_read (total_read s) (response_size - 1 - total_read s)] @ ios"]) simp_all
        with acc Left_loop show ?thesis by simp
      next
        case (Returned rc s')
        with IH obtain j t ios where j: "Suc k \<le> j" and t: "buf_ok t"
          "total_read t < response_size - 1" "loop_body e (sts j) t = Return rc s'"
          and ios: "effects t = effects s1 @ ios" "list_all loop_call_ok ios"
          "length (filter is_poll ios) = j - Suc k"
          and earlier: "\<forall>i. Suc k \<le> i \<and> i < j \<longrightarrow> 0 < poll_ret (sts i)"
          by auto
        let ?ios = "[Call_poll connect_timeout_ms,
            Call_read (total_read s) (response_size - 1 - total_read s)] @ ios"
        have "effects t = effects s @ ?ios" "list_all loop_call_ok ?ios"
          "length (filter is_poll ?ios) = j - k"
          using ios eff1 calls j by simp_all
        moreover have "\<forall>i. k \<le> i \<and> i < j \<longrightarrow> 0 < poll_ret (sts i)"
        proof (intro allI impI)
          fix i assume "k \<le> i \<and> i < j"
          then show "0 < poll_ret (sts i)"
            using earlier ready by (cases "i = k") auto
        qed
        moreover have "k \<le> j"
          using j by simp
        ultimately have "\<exists>j t ios. k \<le> j \<and> buf_ok t \<and> total_read t < response_size - 1
          \<and> loop_body e (sts j) t = Return rc s'
          \<and> effects t = effects s @ ios \<and> list_all loop_call_ok ios
          \<and> length (filter is_poll ios) = j - k
          \<and> (\<forall>i. k \<le> i \<and> i < j \<longrightarrow> 0 < poll_ret (sts i))"
          using t by blast
        with acc Returned show ?thesis by simp
      next
        case Overrun
        with IH show ?thesis by simp
      qed
    next
      case (Break s1)
      have acc: "accumulate e sts k s = Left_loop s1"
        using below Break by (subst accumulate.simps) simp
      from loop_body_goes_on [OF "1.prems" below, of e "sts k" s1] Break
      have "buf_ok s1"
        and "effects s1 = effects s @ [Call_poll connect_timeout_ms,
            Call_read (total_read s) (response_size - 1 - total_read s)]"
        by simp_all
      moreover have "list_all loop_call_ok [Call_poll connect_timeout_ms,
            Call_read (total_read s) (response_size - 1 - total_read s)]"
        using below by simp
      ultimately have "buf_ok s1 \<and> (\<exists>ios. effects s1 = effects s @ ios
            \<and> list_all loop_call_ok ios)"
        by blast
      with acc show ?thesis by simp
    next
      case (Return rc s1)
      have acc: "accumulate e sts k s = Returned rc s1"
        using below Return by (subst accumulate.simps) simp
      have "\<exists>j t ios. k \<le> j \<and> buf_ok t \<and> total_read t < response_size - 1
          \<and> loop_body e (sts j) t = Return rc s1
          \<and> effects t = effects s @ ios \<and> list_all loop_call_ok ios
          \<and> length (filter is_poll ios) = j - k
          \<and> (\<forall>i. k \<le> i \<and> i < j \<longrightarrow> 0 < poll_ret (sts i))"
        using "1.prems" below Return
        by (intro exI [of _ k] exI [of _ s] exI [of _ "[]"]) simp
      with acc show ?thesis by simp
    next
      case Out_of_bounds
      with loop_body_in_bounds [OF "1.prems" below, of e "sts k"] show ?thesis
        by simp
    qed
  qed
qed

section \<open>The status check and the function as a whole\<close>

lemma strstr_Some_at: "strstr h n = Some i \<Longrightarrow> take (length n) (drop i h) = n"
proof (induction h arbitrary: i)
  case Nil
  then show ?case by (simp split: if_splits)
next
  case (Cons c cs)
  show ?case
  proof (cases "prefix n (c # cs)")
    case True
    with Cons.prems have "i = 0" by simp
    with True show ?thesis
      by (auto simp: prefix_def)
  next
    case False
    with Cons.prems obtain j where "strstr cs n = Some j" and "i = Suc j"
      by auto
    with Cons.IH [of j] show ?thesis by simp
  qed
qed

lemma terminator_has_CRLF:
  assumes "strstr cs terminator \<noteq> None"
  shows "strstr cs CRLF \<noteq> None"
proof -
  from assms have "sublist (CRLF @ CRLF) cs"
    by (simp add: strstr_None_iff terminator_def)
  then obtain ps ss where "cs = ps @ (CRLF @ CRLF) @ ss"
    by (auto simp: sublist_def)
  then have "cs = ps @ CRLF @ (CRLF @ ss)"
    by simp
  then have "sublist CRLF cs"
    unfolding sublist_def by blast
  then show ?thesis
    by (simp add: strstr_None_iff)
qed

lemma take_c_str:
  assumes "i \<le> length (c_str buf)"
  shows "take i buf = take i (c_str buf)"
  using assms take_append [of i "takeWhile (\<lambda>c. c \<noteq> NUL) buf" "dropWhile (\<lambda>c. c \<noteq> NUL) buf"]
  by (simp add: c_str_def)

lemma c_str_cut:
  assumes "i \<le> length (c_str buf)" and "i < length buf"
  shows "c_str (buf[i := NUL]) = take i buf"
proof -
  have "take i buf = take i (c_str buf)"
    using assms(1) by (rule take_c_str)
  then have "set (take i buf) \<subseteq> set (c_str buf)"
    by (simp add: set_take_subset)
  then have "NUL \<notin> set (take i buf)"
    unfolding c_str_def using set_takeWhileD by fastforce
  then have "c_str (take i buf) = take i buf"
    by (rule c_str_NUL_free)
  moreover have "buf[i := NUL] = take i buf @ NUL # drop (Suc i) buf"
    using assms(2) by (simp add: upd_conv_take_nth_drop)
  ultimately show ?thesis
    by (simp only: c_str_append_NUL)
qed

lemma validate_incomplete:
  assumes "strstr (c_str (response s)) terminator = None"
  shows "validate s = Some (MOSQ_ERR_PROXY,
    emit s [Call_free,
            Call_log MOSQ_LOG_ERR ''Proxy response headers too long or incomplete.'' []])"
  using assms by (simp add: validate_def)

lemma validate_accepted:
  assumes "strstr (c_str (response s)) terminator \<noteq> None"
    and "take 12 (c_str (response s)) = ''HTTP/1.1 200''
       \<or> take 12 (c_str (response s)) = ''HTTP/1.0 200''"
  shows "validate s = Some (MOSQ_ERR_SUCCESS,
    emit s [Call_log MOSQ_LOG_INFO ''Successfully connected to MQTT broker via proxy.'' [],
            Call_free])"
proof -
  have "strncmp (c_str (response s)) ''HTTP/1.1 200'' 12 = 0
      \<or> strncmp (c_str (response s)) ''HTTP/1.0 200'' 12 = 0"
    using assms(2) by (simp only: strncmp_0_iff) simp
  with assms(1) show ?thesis
    unfolding validate_def by (simp only: if_False if_True simp_thms) auto
qed

lemma validate_rejected:
  assumes "strstr (c_str (response s)) terminator \<noteq> None"
    and "take 12 (c_str (response s)) \<noteq> ''HTTP/1.1 200''"
    and "take 12 (c_str (response s)) \<noteq> ''HTTP/1.0 200''"
  shows "\<exists>i s'. strstr (c_str (response s)) CRLF = Some i
    \<and> validate s = Some (MOSQ_ERR_PROXY, s')
    \<and> effects s' = effects s @
        [Call_log MOSQ_LOG_ERR ''Proxy CONNECT failed: %s'' [take i (c_str (response s))],
         Call_free]"
proof -
  have cmp: "strncmp (c_str (response s)) ''HTTP/1.1 200'' 12 \<noteq> 0"
    "strncmp (c_str (response s)) ''HTTP/1.0 200'' 12 \<noteq> 0"
    using assms(2,3) by (simp_all only: strncmp_0_iff) simp_all
  from terminator_has_CRLF [OF assms(1)] obtain i
    where i: "strstr (c_str (response s)) CRLF = Some i"
    by auto
  from strstr_Some_bound [OF i] have le: "i < length (c_str (response s))"
    by (simp add: CRLF_def)
  with length_c_str [of "response s"] have lt: "i < length (response s)"
    by simp
  have cut: "c_str ((response s)[i := NUL]) = take i (c_str (response s))"
  proof -
    have "c_str ((response s)[i := NUL]) = take i (response s)"
      using le lt by (intro c_str_cut) simp_all
    also have "\<dots> = take i (c_str (response s))"
      using le by (intro take_c_str) simp
    finally show ?thesis .
  qed
  show ?thesis
    using assms(1) cmp i lt cut
    by (simp add: validate_def store_def emit_def Let_def)
qed

lemma format_request_nonempty: "format_request dest_host dest_port auth \<noteq> []"
  by (simp add: format_request_def split: option.splits)

text \<open>
  When the buffer is allocated, the request fits and is written in full, the
  function enters the loop with an empty buffer, and ends as the loop and the
  status check decide.
\<close>

lemma connect_enters_loop:
  assumes alloc: "malloc_res env = Some junk"
    and fits: "length (format_request dest_host dest_port (proxy_auth_header mosq)) < request_size"
    and written: "write_ret env
        = int (length (format_request dest_host dest_port (proxy_auth_header mosq)))"
  shows "net__proxy_connect mosq dest_host dest_port env =
    (case accumulate (errno_text env) (steps env) 0
            (loop_entry (map junk [0..<response_size])
               (format_request dest_host dest_port (proxy_auth_header mosq))) of
       Returned rc s \<Rightarrow> Some (rc, effects s)
     | Left_loop s \<Rightarrow> map_option (\<lambda>(rc, s'). (rc, effects s')) (validate s)
     | Overrun \<Rightarrow> None)"
proof -
  let ?req = "format_request dest_host dest_port (proxy_auth_header mosq)"
  have pos: "0 < length ?req"
    using format_request_nonempty [of dest_host dest_port "proxy_auth_header mosq"] by simp
  have sn: "snprintf request_size ?req = (?req, int (length ?req))"
    using fits by (simp add: snprintf_def request_size_def INT_MAX_def)
  show ?thesis
    unfolding net__proxy_connect_def mosquitto__malloc_def alloc sn
    using pos fits written by (simp add: Let_def)
qed

lemma loop_entry_holds: "holds (loop_entry (map junk [0..<response_size]) req) []"
  by (simp add: holds_def loop_entry_def)

lemma loop_entry_buf_ok: "buf_ok (loop_entry (map junk [0..<response_size]) req)"
  by (simp add: buf_ok_def loop_entry_def)

section \<open>Facts about the example inputs\<close>

lemma fmt_d_1883: "fmt_d 1883 = ''1883''"
  by code_simp

lemma example_request_eq:
  "format_request ''example.com'' 1883 (proxy_auth_header example_mosq) = example_request"
  by (simp add: format_request_def example_mosq_def example_request_def fmt_d_1883)

lemma example_request_length: "length example_request = 61"
  by (simp add: example_request_def CRLF_def)

lemma POLLIN_set: "POLLIN \<noteq> 0" "POLLIN AND POLLIN \<noteq> 0"
  by (simp_all add: POLLIN_def)

lemma ready_with_simps:
  "poll_ret (ready_with bs) = 1"
  "poll_revents (ready_with bs) = POLLIN"
  "read_avail (ready_with bs) = Some bs"
  by (simp_all add: ready_with_def)

lemma example_env_simps:
  "malloc_res (example_env answers) = Some (\<lambda>i. CHR ''?'')"
  "write_ret (example_env answers) = 61"
  "errno_text (example_env answers) = ''EIO''"
  "k < length answers \<Longrightarrow> steps (example_env answers) k = answers ! k"
  "\<not> k < length answers \<Longrightarrow> steps (example_env answers) k = no_event"
  by (simp_all add: example_env_def)

lemma example_delivers:
  "delivers (steps (example_env (map ready_with frags @ rest))) 0 frags
     \<longleftrightarrow> (\<forall>f \<in> set frags. f \<noteq> [])"
proof -
  have "delivers (steps (example_env (map ready_with (done @ frags) @ rest))) (length done) frags
     \<longleftrightarrow> (\<forall>f \<in> set frags. f \<noteq> [])" for "done"
  proof (induction frags arbitrary: "done")
    case Nil
    then show ?case by simp
  next
    case (Cons f fs)
    have step: "steps (example_env
          (map ready_with done @ ready_with f # map ready_with fs @ rest)) (length done)
        = ready_with f"
      by (simp add: example_env_def nth_append)
    from Cons.IH [of "done @ [f]"] show ?case
      by (simp add: step ready_with_simps POLLIN_set)
  qed
  from this [of "[]"] show ?thesis by simp
qed

section \<open>Runs that read fragments\<close>

text \<open>For bytes without NUL, \<^verbatim>\<open>strstr\<close> finds the terminator exactly when it occurs.\<close>

lemma has_terminator_NUL_free:
  "NUL \<notin> set bytes \<Longrightarrow> has_terminator bytes \<longleftrightarrow> sublist terminator bytes"
  by (simp add: has_terminator_def c_str_NUL_free strstr_None_iff)

lemma delivers_nonempty: "delivers sts k frags \<Longrightarrow> f \<in> set frags \<Longrightarrow> f \<noteq> []"
  by (induction frags arbitrary: k) auto

lemma delivers_butlast_shorter:
  assumes "delivers sts k frags" and "frags \<noteq> []"
  shows "length (concat (butlast frags)) < length (concat frags)"
proof -
  from assms(2) have split: "frags = butlast frags @ [last frags]"
    by simp
  from assms have "last frags \<noteq> []"
    using delivers_nonempty [of sts k frags "last frags"] by simp
  moreover have "concat frags = concat (butlast frags) @ last frags"
    by (subst split) simp
  ultimately show ?thesis by simp
qed

lemma accumulate_returns:
  assumes "total_read s < response_size - 1" and "loop_body e (sts k) s = Return rc s'"
  shows "accumulate e sts k s = Returned rc s'"
  using assms by (subst accumulate.simps) simp

lemma accumulate_full:
  assumes "\<not> total_read s < response_size - 1"
  shows "accumulate e sts k s = Left_loop s"
  using assms by (subst accumulate.simps) simp

text \<open>
  Fragments that fit the buffer and complete the terminator with the last of
  them: the loop is left after the last fragment, holding all of them.
\<close>

lemma fragments_leave_loop:
  assumes frags: "frags \<noteq> []" "delivers sts 0 frags"
    and room: "length (concat frags) \<le> response_size - 1"
    and incomplete: "\<And>i. 0 < i \<Longrightarrow> i < length frags
        \<Longrightarrow> \<not> has_terminator (concat (take i frags))"
    and complete: "has_terminator (concat frags)"
  shows "\<exists>s. accumulate e sts 0 (loop_entry (map junk [0..<response_size]) req) = Left_loop s
      \<and> holds s (concat frags)
      \<and> effects s = [Call_malloc response_size, Call_write req] @ reads_trace 0 frags
      \<and> c_str (response s) = c_str (concat frags)"
proof -
  let ?s0 = "loop_entry (map junk [0..<response_size]) req"
  have whole: "take (response_size - 1) (concat frags) = concat frags"
    using room by simp
  have "0 < length (concat frags)"
    using delivers_butlast_shorter [OF frags(2,1)] by linarith
  then have nonempty: "concat frags \<noteq> []"
    by (cases "concat frags") simp_all
  have "\<exists>s'. holds s' (take (response_size - 1) ([] @ concat frags))
      \<and> effects s' = effects ?s0 @ reads_trace (length ([] :: string)) frags
      \<and> accumulate e sts 0 ?s0 =
         (if has_terminator (take (response_size - 1) ([] @ concat frags))
          then Left_loop s' else accumulate e sts (0 + length frags) s')"
  proof (rule accumulate_fragments)
    show "holds ?s0 []"
      by (rule loop_entry_holds)
    show "delivers sts 0 frags" "frags \<noteq> []"
      by (rule frags)+
    show "length ([] @ concat (butlast frags)) < response_size - 1"
      using delivers_butlast_shorter [OF frags(2,1)] room by simp
    show "\<not> has_terminator ([] @ concat (take i frags))" if "0 < i" "i < length frags" for i
      using incomplete [OF that] by simp
  qed
  then obtain s where s: "holds s (concat frags)"
    and eff: "effects s = effects ?s0 @ reads_trace 0 frags"
    and loop: "accumulate e sts 0 ?s0 = Left_loop s"
    using whole complete by auto
  from holds_c_str [OF s nonempty] have "c_str (response s) = c_str (concat frags)" .
  with s eff loop show ?thesis
    by (auto simp: loop_entry_def)
qed

text \<open>
  Fragments that leave room in the buffer and do not complete the terminator:
  the loop reads them all and goes on to the next iteration.
\<close>

lemma fragments_continue:
  assumes frags: "delivers sts 0 frags"
    and room: "length (concat frags) < response_size - 1"
    and incomplete: "\<And>i. 0 < i \<Longrightarrow> i \<le> length frags
        \<Longrightarrow> \<not> has_terminator (concat (take i frags))"
  shows "\<exists>s. accumulate e sts 0 (loop_entry (map junk [0..<response_size]) req)
        = accumulate e sts (length frags) s
      \<and> holds s (concat frags)
      \<and> effects s = [Call_malloc response_size, Call_write req] @ reads_trace 0 frags"
proof (cases "frags = []")
  case True
  then show ?thesis
    using loop_entry_holds [of junk req] by (auto simp: loop_entry_def)
next
  case False
  let ?s0 = "loop_entry (map junk [0..<response_size]) req"
  have whole: "take (response_size - 1) (concat frags) = concat frags"
    using room by simp
  have "\<exists>s'. holds s' (take (response_size - 1) ([] @ concat frags))
      \<and> effects s' = effects ?s0 @ reads_trace (length ([] :: string)) frags
      \<and> accumulate e sts 0 ?s0 =
         (if has_terminator (take (response_size - 1) ([] @ concat frags))
          then Left_loop s' else accumulate e sts (0 + length frags) s')"
  proof (rule accumulate_fragments)
    show "holds ?s0 []"
      by (rule loop_entry_holds)
    show "delivers sts 0 frags" "frags \<noteq> []"
      by (rule frags, rule False)
    show "length ([] @ concat (butlast frags)) < response_size - 1"
      using delivers_butlast_shorter [OF frags False] room by simp
    show "\<not> has_terminator ([] @ concat (take i frags))" if "0 < i" "i < length frags" for i
      using incomplete [of i] that by simp
  qed
  moreover have "\<not> has_terminator (concat frags)"
    using incomplete [of "length frags"] False by simp
  ultimately show ?thesis
    using whole by (auto simp: loop_entry_def)
qed

text \<open>The example environment with a whole response in the first read.\<close>

lemma example_single_response:
  assumes "r \<noteq> []" and "length r \<le> response_size - 1" and "NUL \<notin> set r"
    and "strstr r terminator \<noteq> None"
  shows "\<exists>s. accumulate ''EIO'' (steps (example_env [ready_with r])) 0
        (loop_entry (map (\<lambda>i. CHR ''?'') [0..<response_size]) example_request) = Left_loop s
      \<and> effects s = [Call_malloc response_size, Call_write example_request,
          Call_poll connect_timeout_ms, Call_read 0 (response_size - 1)]
      \<and> c_str (response s) = r"
proof -
  have cr: "c_str r = r"
    using assms(3) by (rule c_str_NUL_free)
  have "\<exists>s. accumulate ''EIO'' (steps (example_env (map ready_with [r] @ []))) 0
        (loop_entry (map (\<lambda>i. CHR ''?'') [0..<response_size]) example_request) = Left_loop s
      \<and> holds s (concat [r])
      \<and> effects s = [Call_malloc response_size, Call_write example_request]
          @ reads_trace 0 [r]
      \<and> c_str (response s) = c_str (concat [r])"
  proof (rule fragments_leave_loop)
    show "[r] \<noteq> []"
      by simp
    show "delivers (steps (example_env (map ready_with [r] @ []))) 0 [r]"
      using assms(1) by (simp only: example_delivers) simp
    show "length (concat [r]) \<le> response_size - 1"
      using assms(2) by simp
    show "\<not> has_terminator (concat (take i [r]))" if "0 < i" "i < length [r]" for i
      using that by simp
    show "has_terminator (concat [r])"
      using assms(4) by (simp add: has_terminator_def cr)
  qed
  then show ?thesis
    by (auto simp: cr)
qed

section \<open>The function in any environment\<close>

lemma connect_no_memory:
  assumes "malloc_res env = None"
  shows "net__proxy_connect mosq dest_host dest_port env =
    Some (MOSQ_ERR_NOMEM, [Call_malloc response_size])"
  using assms by (simp add: net__proxy_connect_def mosquitto__malloc_def)

lemma connect_too_long:
  assumes "malloc_res env = Some junk"
    and "request_size \<le> length (format_request dest_host dest_port (proxy_auth_header mosq))"
  shows "net__proxy_connect mosq dest_host dest_port env =
    Some (MOSQ_ERR_PROXY,
          [Call_malloc response_size, Call_free,
           Call_log MOSQ_LOG_ERR ''Proxy CONNECT request too long.'' []])"
proof -
  let ?req = "format_request dest_host dest_port (proxy_auth_header mosq)"
  have "snd (snprintf request_size ?req) \<le> 0
      \<or> request_size \<le> nat (snd (snprintf request_size ?req))"
    using assms(2) by (simp add: snprintf_def)
  then show ?thesis
    using assms(1)
    by (auto simp: net__proxy_connect_def mosquitto__malloc_def split: prod.splits)
qed

lemma connect_write_fails:
  assumes alloc: "malloc_res env = Some junk"
    and fits: "length (format_request dest_host dest_port (proxy_auth_header mosq)) < request_size"
    and short: "write_ret env
        \<noteq> int (length (format_request dest_host dest_port (proxy_auth_header mosq)))"
  shows "net__proxy_connect mosq dest_host dest_port env =
    Some (MOSQ_ERR_PROXY,
          [Call_malloc response_size,
           Call_write (format_request dest_host dest_port (proxy_auth_header mosq)),
           Call_free, Call_log MOSQ_LOG_ERR ''Error writing to proxy: %s.'' [errno_text env]])"
proof -
  let ?req = "format_request dest_host dest_port (proxy_auth_header mosq)"
  have pos: "0 < length ?req"
    using format_request_nonempty [of dest_host dest_port "proxy_auth_header mosq"] by simp
  have sn: "snprintf request_size ?req = (?req, int (length ?req))"
    using fits by (simp add: snprintf_def request_size_def INT_MAX_def)
  show ?thesis
    unfolding net__proxy_connect_def mosquitto__malloc_def alloc sn
    using pos fits short by (simp add: Let_def)
qed

lemma loop_call_ok_not_logged: "list_all loop_call_ok ios \<Longrightarrow> logged ios = []"
proof (induction ios)
  case Nil
  then show ?case by simp
next
  case (Cons c ios)
  then show ?case by (cases c) simp_all
qed

lemma logged_append: "logged (xs @ ys) = logged xs @ logged ys"
  by (induction xs rule: logged.induct) simp_all

text \<open>
  The calls of any run: the allocation and (once the request fits) the write;
  then polls with the configured timeout and reads within the buffer; then
  the calls of the one \<^verbatim>\<open>return\<close> statement that ends the run.
\<close>

lemma connect_shape:
  "\<exists>rc pre ios tail.
     net__proxy_connect mosq dest_host dest_port env = Some (rc, pre @ ios @ tail)
     \<and> (pre = [Call_malloc response_size]
        \<or> pre = [Call_malloc response_size,
                  Call_write (format_request dest_host dest_port (proxy_auth_header mosq))])
     \<and> list_all loop_call_ok ios
     \<and> (rc = MOSQ_ERR_NOMEM \<and> tail = []
        \<or> (\<exists>fmt args. rc = MOSQ_ERR_PROXY \<and> tail = [Call_free, Call_log MOSQ_LOG_ERR fmt args]
              \<and> fmt \<in> set failure_formats)
        \<or> (\<exists>line. rc = MOSQ_ERR_PROXY
              \<and> tail = [Call_log MOSQ_LOG_ERR ''Proxy CONNECT failed: %s'' [line], Call_free])
        \<or> rc = MOSQ_ERR_SUCCESS
            \<and> tail = [Call_log MOSQ_LOG_INFO
                         ''Successfully connected to MQTT broker via proxy.'' [],
                       Call_free])
     \<and> (Call_log MOSQ_LOG_ERR ''Proxy connect timed out.'' [] \<in> set tail \<longrightarrow>
          (\<exists>j. poll_ret (steps env j) = 0 \<and> (\<forall>i<j. 0 < poll_ret (steps env i))
             \<and> length (filter is_poll ios) = Suc j))
     \<and> (malloc_res env \<noteq> None
          \<and> length (format_request dest_host dest_port (proxy_auth_header mosq)) < request_size
        \<longrightarrow> pre = [Call_malloc response_size,
                  Call_write (format_request dest_host dest_port (proxy_auth_header mosq))])"
  (is "\<exists>rc pre ios tail. ?P rc pre ios tail")
proof -
  let ?req = "format_request dest_host dest_port (proxy_auth_header mosq)"
  let ?pre = "[Call_malloc response_size, Call_write ?req]"
  show ?thesis
  proof (cases "malloc_res env")
    case None
    have "?P MOSQ_ERR_NOMEM [Call_malloc response_size] [] []"
      by (simp add: connect_no_memory [OF None] None)
    then show ?thesis by blast
  next
    case (Some junk)
    let ?s0 = "loop_entry (map junk [0..<response_size]) ?req"
    consider (long) "request_size \<le> length ?req"
      | (short) "length ?req < request_size" "write_ret env \<noteq> int (length ?req)"
      | (loop) "length ?req < request_size" "write_ret env = int (length ?req)"
      by linarith
    then show ?thesis
    proof cases
      case long
      have "?P MOSQ_ERR_PROXY [Call_malloc response_size] []
          [Call_free, Call_log MOSQ_LOG_ERR ''Proxy CONNECT request too long.'' []]"
        using long by (simp add: connect_too_long [OF Some long] failure_formats_def)
      then show ?thesis by blast
    next
      case short
      have "?P MOSQ_ERR_PROXY ?pre []
          [Call_free, Call_log MOSQ_LOG_ERR ''Error writing to proxy: %s.'' [errno_text env]]"
        by (simp add: connect_write_fails [OF Some short] failure_formats_def)
      then show ?thesis by blast
    next
      case loop
      note enter = connect_enters_loop [OF Some loop]
      note exits = accumulate_exits [OF loop_entry_buf_ok [of junk ?req],
          where e = "errno_text env" and sts = "steps env" and k = 0]
      have eff0: "effects ?s0 = ?pre"
        by (simp add: loop_entry_def)
      show ?thesis
      proof (cases "accumulate (errno_text env) (steps env) 0 ?s0")
        case Overrun
        with exits show ?thesis by simp
      next
        case (Returned rc s')
        with exits obtain j t ios where t: "buf_ok t" "total_read t < response_size - 1"
          "loop_body (errno_text env) (steps env j) t = Return rc s'"
          and ios: "effects t = ?pre @ ios" "list_all loop_call_ok ios"
          and polls: "length (filter is_poll ios) = j"
          and earlier: "\<forall>i<j. 0 < poll_ret (steps env i)"
          by (auto simp: eff0)
        from loop_body_returns [OF t] obtain ios' fmt args
          where rc: "rc = MOSQ_ERR_PROXY"
            and eff: "effects s' = effects t @ Call_poll connect_timeout_ms # ios'
                 @ [Call_free, Call_log MOSQ_LOG_ERR fmt args]"
            and ios': "ios' = [] \<or> ios' = [Call_read (total_read t)
                (response_size - 1 - total_read t)]"
            and fmt: "fmt \<in> set loop_failure_formats"
            and cause: "fmt = ''Proxy connect timed out.'' \<longrightarrow> poll_ret (steps env j) = 0"
          by blast
        let ?ios = "ios @ Call_poll connect_timeout_ms # ios'"
        have "list_all loop_call_ok ?ios"
          using ios(2) ios' t(2) by auto
        moreover have "net__proxy_connect mosq dest_host dest_port env =
            Some (rc, ?pre @ ?ios @ [Call_free, Call_log MOSQ_LOG_ERR fmt args])"
          using Returned eff ios(1) by (simp add: enter)
        moreover have "fmt \<in> set failure_formats"
          using fmt by (simp add: failure_formats_def)
        moreover have "length (filter is_poll ?ios) = Suc j"
          using polls ios' by auto
        then have "Call_log MOSQ_LOG_ERR ''Proxy connect timed out.'' []
            \<in> set [Call_free, Call_log MOSQ_LOG_ERR fmt args] \<longrightarrow>
          (\<exists>j. poll_ret (steps env j) = 0 \<and> (\<forall>i<j. 0 < poll_ret (steps env i))
             \<and> length (filter is_poll ?ios) = Suc j)"
          using cause earlier by auto
        ultimately have "?P rc ?pre ?ios [Call_free, Call_log MOSQ_LOG_ERR fmt args]"
          using rc by blast
        then show ?thesis by blast
      next
        case (Left_loop s)
        with exits obtain ios where ios: "effects s = ?pre @ ios" "list_all loop_call_ok ios"
          by (auto simp: eff0)
        have res: "net__proxy_connect mosq dest_host dest_port env
            = map_option (\<lambda>(rc, s'). (rc, effects s')) (validate s)"
          using Left_loop by (simp add: enter)
        consider (incomplete) "strstr (c_str (response s)) terminator = None"
          | (accepted) "strstr (c_str (response s)) terminator \<noteq> None"
              "take 12 (c_str (response s)) = ''HTTP/1.1 200''
               \<or> take 12 (c_str (response s)) = ''HTTP/1.0 200''"
          | (rejected) "strstr (c_str (response s)) terminator \<noteq> None"
              "take 12 (c_str (response s)) \<noteq> ''HTTP/1.1 200''"
              "take 12 (c_str (response s)) \<noteq> ''HTTP/1.0 200''"
          by blast
        then show ?thesis
        proof cases
          case incomplete
          have "?P MOSQ_ERR_PROXY ?pre ios [Call_free, Call_log MOSQ_LOG_ERR
              ''Proxy response headers too long or incomplete.'' []]"
            using ios
            by (simp add: res validate_incomplete [OF incomplete] emit_def failure_formats_def)
          then show ?thesis by blast
        next
          case accepted
          have "?P MOSQ_ERR_SUCCESS ?pre ios [Call_log MOSQ_LOG_INFO
              ''Successfully connected to MQTT broker via proxy.'' [], Call_free]"
            using ios by (simp add: res validate_accepted [OF accepted] emit_def)
          then show ?thesis by blast
        next
          case rejected
          from validate_rejected [OF rejected] obtain i s'
            where "validate s = Some (MOSQ_ERR_PROXY, s')"
              and "effects s' = effects s @
                [Call_log MOSQ_LOG_ERR ''Proxy CONNECT failed: %s''
                   [take i (c_str (response s))], Call_free]"
            by blast
          then have "?P MOSQ_ERR_PROXY ?pre ios [Call_log MOSQ_LOG_ERR
              ''Proxy CONNECT failed: %s'' [take i (c_str (response s))], Call_free]"
            using ios by (simp add: res)
          then show ?thesis by blast
        qed
      qed
    qed
  qed
qed

lemma connect_returns_at_once:
  assumes alloc: "malloc_res env = Some junk"
    and fits: "length (format_request dest_host dest_port (proxy_auth_header mosq)) < request_size"
    and written: "write_ret env
        = int (length (format_request dest_host dest_port (proxy_auth_header mosq)))"
    and body: "loop_body (errno_text env) (steps env 0)
        (loop_entry (map junk [0..<response_size])
           (format_request dest_host dest_port (proxy_auth_header mosq))) = Return rc s'"
  shows "net__proxy_connect mosq dest_host dest_port env = Some (rc, effects s')"
proof -
  have "total_read (loop_entry (map junk [0..<response_size])
      (format_request dest_host dest_port (proxy_auth_header mosq))) < response_size - 1"
    by (simp add: loop_entry_def response_size_def)
  from accumulate_returns [where sts = "steps env" and k = 0, OF this body] show ?thesis
    by (simp add: connect_enters_loop [OF alloc fits written])
qed

lemma example_pre:
  "malloc_res (example_env a) = Some (\<lambda>i. CHR ''?'')"
  "length (format_request ''example.com'' 1883 (proxy_auth_header example_mosq)) < request_size"
  "write_ret (example_env a)
      = int (length (format_request ''example.com'' 1883 (proxy_auth_header example_mosq)))"
  by (simp_all add: example_env_simps example_request_eq example_request_length
      request_size_def)

text \<open>A return from the body in the iteration that follows the fragments read so far.\<close>

lemma connect_returns_after:
  assumes alloc: "malloc_res env = Some junk"
    and fits: "length (format_request dest_host dest_port (proxy_auth_header mosq)) < request_size"
    and written: "write_ret env
        = int (length (format_request dest_host dest_port (proxy_auth_header mosq)))"
    and frags: "delivers (steps env) 0 frags"
    and room: "length (concat frags) < response_size - 1"
    and incomplete: "\<And>i. 0 < i \<Longrightarrow> i \<le> length frags
        \<Longrightarrow> \<not> has_terminator (concat (take i frags))"
    and body: "\<And>s. loop_body (errno_text env) (steps env (length frags)) s
        = Return rc (emit s tail)"
  shows "net__proxy_connect mosq dest_host dest_port env =
        Some (rc,
              [Call_malloc response_size,
               Call_write (format_request dest_host dest_port (proxy_auth_header mosq))]
              @ reads_trace 0 frags @ tail)"
proof -
  let ?req = "format_request dest_host dest_port (proxy_auth_header mosq)"
  from fragments_continue [OF frags room incomplete, of "errno_text env" junk ?req]
  obtain s where loop: "accumulate (errno_text env) (steps env) 0
        (loop_entry (map junk [0..<response_size]) ?req)
        = accumulate (errno_text env) (steps env) (length frags) s"
    and s: "holds s (concat frags)"
    and eff: "effects s = [Call_malloc response_size, Call_write ?req] @ reads_trace 0 frags"
    by blast
  from s room have "total_read s < response_size - 1"
    by (simp add: holds_def)
  then have "accumulate (errno_text env) (steps env) (length frags) s
      = Returned rc (emit s tail)"
    using body by (rule accumulate_returns)
  with loop eff show ?thesis
    by (simp add: connect_enters_loop [OF alloc fits written] emit_def)
qed

text \<open>The example environment with two fragments and then a wait without event.\<close>

lemma example_trickle_then_silence:
  "net__proxy_connect example_mosq ''example.com'' 1883
     (example_env [ready_with ''HTTP/1.1 20'', ready_with ''0 OK'']) =
   Some (MOSQ_ERR_PROXY,
         [Call_malloc 2048, Call_write example_request,
          Call_poll 10000, Call_read 0 2047, Call_poll 10000, Call_read 11 2036,
          Call_poll 10000, Call_free,
          Call_log MOSQ_LOG_ERR ''Proxy connect timed out.'' []])"
proof -
  let ?frags = "[''HTTP/1.1 20'', ''0 OK'']"
  let ?env = "example_env (map ready_with ?frags @ [])"
  have "net__proxy_connect example_mosq ''example.com'' 1883 ?env =
        Some (MOSQ_ERR_PROXY,
              [Call_malloc response_size,
               Call_write (format_request ''example.com'' 1883 (proxy_auth_header example_mosq))]
              @ reads_trace 0 ?frags
              @ [Call_poll connect_timeout_ms, Call_free,
                 Call_log MOSQ_LOG_ERR ''Proxy connect timed out.'' []])"
  proof (rule connect_returns_after)
    show "malloc_res ?env = Some (\<lambda>i. CHR ''?'')"
      by (rule example_pre)
    show "length (format_request ''example.com'' 1883 (proxy_auth_header example_mosq))
        < request_size"
      by (rule example_pre)
    show "write_ret ?env
        = int (length (format_request ''example.com'' 1883 (proxy_auth_header example_mosq)))"
      by (rule example_pre)
    show "delivers (steps ?env) 0 ?frags"
      by (simp only: example_delivers) simp
    show "length (concat ?frags) < response_size - 1"
      by (simp add: response_size_def)
    show "\<not> has_terminator (concat (take i ?frags))" if "0 < i" "i \<le> length ?frags" for i
    proof -
      from that have "i = 1 \<or> i = 2" by auto
      then show ?thesis
        by (auto simp: has_terminator_def c_str_def NUL_def terminator_def CRLF_def)
    qed
    show "loop_body (errno_text ?env) (steps ?env (length ?frags)) s
        = Return MOSQ_ERR_PROXY (emit s [Call_poll connect_timeout_ms, Call_free,
                 Call_log MOSQ_LOG_ERR ''Proxy connect timed out.'' []])" for s
      by (rule loop_body_timeout) (simp add: example_env_def no_event_def)
  qed
  then show ?thesis
    by (simp add: example_request_eq response_size_def connect_timeout_ms_def)
qed

section \<open>A response without terminator\<close>

lemma first_chunks_Suc: "first_chunks sts (Suc n) = first_chunks sts n @ [chunk sts n]"
  by (simp add: first_chunks_def)

lemma length_first_chunks: "length (first_chunks sts n) = n"
  by (simp add: first_chunks_def)

lemma first_chunks_split:
  assumes "i \<le> n"
  shows "first_chunks sts n = first_chunks sts i @ map (chunk sts) [i..<n]"
proof -
  from assms have "[0..<n] = [0..<i] @ [i..<n]"
    by (metis le_add_diff_inverse upt_add_eq_append zero_le)
  then show ?thesis
    by (simp add: first_chunks_def)
qed

lemma first_chunks_take: "i \<le> n \<Longrightarrow> take i (first_chunks sts n) = first_chunks sts i"
  by (simp add: first_chunks_split [of i n] length_first_chunks)

lemma first_chunks_butlast: "butlast (first_chunks sts (Suc n)) = first_chunks sts n"
  by (simp add: first_chunks_Suc)

lemma first_chunks_prefix:
  "i \<le> n \<Longrightarrow> prefix (concat (first_chunks sts i)) (concat (first_chunks sts n))"
  by (simp add: first_chunks_split [of i n])

lemma readable_delivers:
  assumes "\<And>j. k \<le> j \<Longrightarrow> j < k + n \<Longrightarrow> readable sts j"
  shows "delivers sts k (map (chunk sts) [k..<k + n])"
  using assms
proof (induction n arbitrary: k)
  case 0
  then show ?case by simp
next
  case (Suc n)
  have "readable sts k"
    by (rule Suc.prems) simp_all
  then have now: "0 < poll_ret (sts k)" "poll_revents (sts k) AND POLLIN \<noteq> 0"
    "read_avail (sts k) = Some (chunk sts k)" "chunk sts k \<noteq> []"
    by (auto simp: readable_def chunk_def split: option.splits)
  have later: "delivers sts (Suc k) (map (chunk sts) [Suc k..<Suc k + n])"
    by (rule Suc.IH) (simp add: Suc.prems)
  have "[k..<k + Suc n] = k # [Suc k..<Suc k + n]"
    by (simp add: upt_conv_Cons)
  with now later show ?case
    by simp
qed

lemma c_str_terminator_sublist:
  assumes "has_terminator X" and "prefix X Y"
  shows "sublist terminator Y"
proof -
  from assms(1) have "sublist terminator (c_str X)"
    by (simp add: has_terminator_def strstr_None_iff)
  moreover have "sublist (c_str X) X"
    using prefix_c_str [of X] by (rule prefix_imp_sublist)
  moreover have "sublist X Y"
    using assms(2) by (rule prefix_imp_sublist)
  ultimately show ?thesis
    by (meson sublist_order.order_trans)
qed

text \<open>
  As long as the buffer is not full the environment delivers bytes, and the
  first \<open>response_size - 1\<close> bytes of the stream do not contain the terminator:
  the loop is left by its condition, with a full buffer and no terminator.
\<close>

lemma accumulate_until_full:
  assumes flows: "\<And>k. length (concat (first_chunks sts k)) < response_size - 1
        \<Longrightarrow> readable sts k"
    and never: "\<not> sublist terminator
        (take (response_size - 1) (concat (first_chunks sts (response_size - 1))))"
  shows "\<exists>s. accumulate e sts 0 (loop_entry (map junk [0..<response_size]) req) = Left_loop s
      \<and> total_read s = response_size - 1
      \<and> strstr (c_str (response s)) terminator = None"
proof -
  define N where "N = response_size - 1"
  define L where "L n = length (concat (first_chunks sts n))" for n
  let ?s0 = "loop_entry (map junk [0..<response_size]) req"
  have Npos: "0 < N"
    by (simp add: N_def response_size_def)
  have L0: "L 0 = 0"
    by (simp add: L_def first_chunks_def)
  have grows: "L n < L (Suc n)" if "L n < N" for n
  proof -
    from flows that have "chunk sts n \<noteq> []"
      by (simp add: L_def N_def readable_def)
    then show ?thesis
      by (simp add: L_def first_chunks_Suc)
  qed
  have mono: "L i \<le> L n" if "i \<le> n" for i n
    using first_chunks_prefix [OF that, of sts] by (simp add: L_def prefix_length_le)
  have "\<exists>m. N \<le> L m"
  proof (rule ccontr)
    assume "\<not> (\<exists>m. N \<le> L m)"
    then have below: "L n < N" for n
      by (simp add: not_le)
    have "n \<le> L n" for n
    proof (induction n)
      case 0
      then show ?case by simp
    next
      case (Suc n)
      with grows [OF below, of n] show ?case by simp
    qed
    from this [of N] below [of N] show False by simp
  qed
  define m where "m = (LEAST m. N \<le> L m)"
  have full: "N \<le> L m"
    unfolding m_def using \<open>\<exists>m. N \<le> L m\<close> by (rule LeastI_ex)
  have before: "L i < N" if "i < m" for i
    using not_less_Least [of i "\<lambda>m. N \<le> L m"] that by (simp add: m_def not_le)
  have mpos: "0 < m"
    using full L0 Npos by (cases m) simp_all
  have steady: "i \<le> L i" if "i \<le> m" for i
    using that
  proof (induction i)
    case 0
    then show ?case by simp
  next
    case (Suc i)
    then have "i < m" by simp
    from grows [OF before [OF this]] Suc show ?case by simp
  qed
  have mN: "m \<le> N"
  proof -
    from mpos have "m - 1 < m" by simp
    from before [OF this] steady [of "m - 1"] show ?thesis by simp
  qed
  let ?frags = "first_chunks sts m"
  let ?all = "take N (concat (first_chunks sts N))"
  have early: "\<not> has_terminator (concat (first_chunks sts i))" if "i < m" for i
  proof
    assume "has_terminator (concat (first_chunks sts i))"
    moreover have "prefix (concat (first_chunks sts i)) ?all"
    proof -
      from that mN have "i \<le> N" by simp
      from first_chunks_prefix [OF this, of sts] obtain zs
        where "concat (first_chunks sts N) = concat (first_chunks sts i) @ zs"
        by (auto simp: prefix_def)
      moreover have "length (concat (first_chunks sts i)) \<le> N"
        using before [OF that] by (simp add: L_def)
      ultimately show ?thesis
        by (simp add: prefix_def)
    qed
    ultimately have "sublist terminator ?all"
      by (rule c_str_terminator_sublist)
    with never show False
      by (simp add: N_def)
  qed
  have cut: "take N (concat ?frags) = ?all"
  proof -
    from first_chunks_prefix [OF mN, of sts] obtain zs
      where "concat (first_chunks sts N) = concat ?frags @ zs"
      by (auto simp: prefix_def)
    then show ?thesis
      using full by (simp add: L_def)
  qed
  have late: "\<not> has_terminator (take N (concat ?frags))"
  proof
    assume "has_terminator (take N (concat ?frags))"
    then have "sublist terminator (take N (concat ?frags))"
      by (rule c_str_terminator_sublist) simp
    with never cut show False
      by (simp add: N_def)
  qed
  have "\<exists>s'. holds s' (take (response_size - 1) ([] @ concat ?frags))
      \<and> effects s' = effects ?s0 @ reads_trace (length ([] :: string)) ?frags
      \<and> accumulate e sts 0 ?s0 =
         (if has_terminator (take (response_size - 1) ([] @ concat ?frags))
          then Left_loop s' else accumulate e sts (0 + length ?frags) s')"
  proof (rule accumulate_fragments)
    show "holds ?s0 []"
      by (rule loop_entry_holds)
    show "delivers sts 0 ?frags"
      unfolding first_chunks_def
      using readable_delivers [of 0 m sts] flows before by (simp add: L_def N_def)
    show "?frags \<noteq> []"
      using mpos length_first_chunks [of sts m] by auto
    show "length ([] @ concat (butlast ?frags)) < response_size - 1"
    proof -
      from mpos obtain m' where m': "m = Suc m'"
        by (cases m) simp_all
      then have "butlast ?frags = first_chunks sts m'"
        by (simp add: first_chunks_butlast)
      with before [of m'] m' show ?thesis
        by (simp add: L_def N_def)
    qed
    show "\<not> has_terminator ([] @ concat (take i ?frags))"
      if "0 < i" "i < length ?frags" for i
    proof -
      from that have "i < m"
        by (simp add: length_first_chunks)
      with early [of i] show ?thesis
        by (simp add: first_chunks_take)
    qed
  qed
  then obtain s where s: "holds s (take N (concat ?frags))"
    and loop: "accumulate e sts 0 ?s0 = accumulate e sts m s"
    using late by (auto simp: N_def length_first_chunks)
  have len: "length (take N (concat ?frags)) = N"
    using full by (simp add: L_def)
  with s have tot: "total_read s = N"
    by (simp add: holds_def)
  then have "accumulate e sts m s = Left_loop s"
    by (intro accumulate_full) (simp add: N_def)
  moreover have "take N (concat ?frags) \<noteq> []"
  proof
    assume "take N (concat ?frags) = []"
    then have "length (take N (concat ?frags)) = 0"
      by (simp only: list.size)
    with len Npos show False
      by simp
  qed
  from holds_c_str [OF s this] late
  have "strstr (c_str (response s)) terminator = None"
    by (simp add: has_terminator_def)
  ultimately show ?thesis
    using loop tot by (auto simp: N_def)
qed

section \<open>Responses with NUL bytes\<close>


lemma no_sublist_no_terminator: "\<not> sublist terminator bytes \<Longrightarrow> \<not> has_terminator bytes"
  using c_str_terminator_sublist [of bytes bytes] by auto

text \<open>A prefix without NUL is a prefix of the buffer exactly when it is one of its C string.\<close>

lemma take_c_str_eq:
  assumes "NUL \<notin> set p" and "length p = n"
  shows "take n (c_str buf) = p \<longleftrightarrow> take n buf = p"
proof
  assume l: "take n (c_str buf) = p"
  then have "length (take n (c_str buf)) = n"
    using assms(2) by simp
  then have "n \<le> length (c_str buf)"
    by simp
  from take_c_str [OF this] l show "take n buf = p"
    by simp
next
  assume r: "take n buf = p"
  then have len: "length (take n buf) = n"
    using assms(2) by simp
  have "buf = take n buf @ drop n buf"
    by simp
  then have "c_str buf = takeWhile (\<lambda>c. c \<noteq> NUL) (take n buf @ drop n buf)"
    by (simp add: c_str_def)
  also have "\<dots> = take n buf @ takeWhile (\<lambda>c. c \<noteq> NUL) (drop n buf)"
    using assms(1) r by (intro takeWhile_append2) auto
  finally have "take n (c_str buf) = take n (take n buf @ takeWhile (\<lambda>c. c \<noteq> NUL) (drop n buf))"
    by simp
  also have "\<dots> = take n buf"
    using len by simp
  finally show "take n (c_str buf) = p"
    using r by simp
qed

lemma status_prefix_c_str:
  "take 12 (c_str buf) = ''HTTP/1.1 200'' \<longleftrightarrow> take 12 buf = ''HTTP/1.1 200''"
  "take 12 (c_str buf) = ''HTTP/1.0 200'' \<longleftrightarrow> take 12 buf = ''HTTP/1.0 200''"
  by (rule take_c_str_eq; simp add: NUL_def)+

lemma sublist_iff_strstr: "sublist needle hay \<longleftrightarrow> strstr hay needle \<noteq> None"
  by (simp add: strstr_None_iff)

section \<open>The request and the configured authorization\<close>

text \<open>With valid arguments and successful allocations the call stores host, port and line.\<close>

lemma proxy_set_stores:
  assumes "1 \<le> p" and "p \<le> 65535"
    and "auth_line auth_value \<noteq> None \<longrightarrow> heap \<noteq> None"
  shows "mosquitto_proxy_set (Some m) (Some h) p auth_value True heap =
    (MOSQ_ERR_SUCCESS,
     Some (m\<lparr>proxy_host := Some h, proxy_port := p,
             proxy_auth_header := auth_line auth_value\<rparr>))"
proof (cases "auth_line auth_value")
  case None
  then have "auth_value = None \<or> auth_value = Some []"
    by (auto simp: auth_line_def split: option.splits if_splits)
  with assms(1,2) None show ?thesis
    by (auto simp: mosquitto_proxy_set_def mosquitto__strdup_def Let_def)
next
  case (Some line)
  then obtain av where av: "auth_value = Some av" "av \<noteq> []"
    "line = ''Proxy-Authorization: '' @ av @ CRLF"
    by (auto simp: auth_line_def split: option.splits if_splits)
  from assms(3) Some obtain junk where "heap = Some junk"
    by auto
  with assms(1,2) av Some show ?thesis
    by (simp add: mosquitto_proxy_set_def mosquitto__strdup_def mosquitto__malloc_def
        snprintf_def Let_def CRLF_def)
qed

lemma digits_value_dec_nat: "digits_value (dec_nat n) = n"
proof (induction n rule: dec_nat.induct)
  case (1 n)
  show ?case
  proof (cases "n < 10")
    case True
    then show ?thesis
      by (subst dec_nat.simps) (simp add: digits_value_def)
  next
    case False
    have "n mod 10 < 10"
      by simp
    then have digit: "of_char (char_of (48 + n mod 10) :: char) = 48 + n mod 10"
      by (simp add: mod_less)
    have "digits_value (dec_nat n)
        = 10 * digits_value (dec_nat (n div 10)) + n mod 10"
      using False by (subst dec_nat.simps) (simp add: digits_value_def digit)
    with "1.IH" [OF False] show ?thesis
      by simp
  qed
qed

lemma format_request_suffix:
  assumes "auth = None \<or> (\<exists>front. auth = Some (front @ CRLF))"
  shows "suffix (CRLF @ CRLF) (format_request dest_host dest_port auth)"
proof -
  have "\<exists>front. format_request dest_host dest_port auth = front @ CRLF @ CRLF"
  proof (cases auth)
    case None
    then show ?thesis
      by (simp add: format_request_def)
  next
    case (Some line)
    with assms obtain front where "line = front @ CRLF"
      by auto
    with Some have "format_request dest_host dest_port auth
      = (''CONNECT '' @ dest_host @ '':'' @ fmt_d dest_port @ '' HTTP/1.1'' @ CRLF
         @ ''Host: '' @ dest_host @ '':'' @ fmt_d dest_port @ CRLF
         @ front) @ CRLF @ CRLF"
      by (simp add: format_request_def)
    then show ?thesis
      by blast
  qed
  then show ?thesis
    by (auto simp: suffix_def)
qed

lemma auth_line_shape:
  "auth_line auth_value = None \<or> (\<exists>front. auth_line auth_value = Some (front @ CRLF))"
proof (cases "auth_line auth_value")
  case None
  then show ?thesis by simp
next
  case (Some line)
  then obtain av where "line = (''Proxy-Authorization: '' @ av) @ CRLF"
    by (auto simp: auth_line_def split: option.splits if_splits)
  with Some show ?thesis by blast
qed

text \<open>The port 8883 in decimal.\<close>

lemma fmt_d_8883: "fmt_d 8883 = ''8883''"
  by (simp add: fmt_d_def dec_nat.simps char_of_def bit_0)

section \<open>Failures after the fragments read so far\<close>

text \<open>
  A return from the body in the iteration that follows the fragments read so
  far, where the calls of that iteration may depend on the cursor.
\<close>

lemma connect_returns_holding:
  assumes alloc: "malloc_res env = Some junk"
    and fits: "length (format_request dest_host dest_port (proxy_auth_header mosq)) < request_size"
    and written: "write_ret env
        = int (length (format_request dest_host dest_port (proxy_auth_header mosq)))"
    and frags: "delivers (steps env) 0 frags"
    and room: "length (concat frags) < response_size - 1"
    and incomplete: "\<And>i. 0 < i \<Longrightarrow> i \<le> length frags
        \<Longrightarrow> \<not> has_terminator (concat (take i frags))"
    and body: "\<And>s. total_read s = length (concat frags)
        \<Longrightarrow> loop_body (errno_text env) (steps env (length frags)) s = Return rc (emit s tail)"
  shows "net__proxy_connect mosq dest_host dest_port env =
        Some (rc,
              [Call_malloc response_size,
               Call_write (format_request dest_host dest_port (proxy_auth_header mosq))]
              @ reads_trace 0 frags @ tail)"
proof -
  let ?req = "format_request dest_host dest_port (proxy_auth_header mosq)"
  from fragments_continue [OF frags room incomplete, of "errno_text env" junk ?req]
  obtain s where loop: "accumulate (errno_text env) (steps env) 0
        (loop_entry (map junk [0..<response_size]) ?req)
        = accumulate (errno_text env) (steps env) (length frags) s"
    and s: "holds s (concat frags)"
    and eff: "effects s = [Call_malloc response_size, Call_write ?req] @ reads_trace 0 frags"
    by blast
  from s have tot: "total_read s = length (concat frags)"
    by (simp add: holds_def)
  with room have "total_read s < response_size - 1"
    by simp
  then have "accumulate (errno_text env) (steps env) (length frags) s
      = Returned rc (emit s tail)"
    using body [OF tot] by (rule accumulate_returns)
  with loop eff show ?thesis
    by (simp add: connect_enters_loop [OF alloc fits written] emit_def)
qed

text \<open>
  The loop after fragments of which all but the last leave room in the buffer
  and do not complete the terminator: the buffer holds what fits of them.
\<close>

lemma fragments_read:
  assumes frags: "frags \<noteq> []" "delivers sts 0 frags"
    and room: "length (concat (butlast frags)) < response_size - 1"
    and incomplete: "\<And>i. 0 < i \<Longrightarrow> i < length frags
        \<Longrightarrow> \<not> has_terminator (concat (take i frags))"
  shows "\<exists>s. holds s (take (response_size - 1) (concat frags))
      \<and> take (response_size - 1) (concat frags) \<noteq> []
      \<and> effects s = [Call_malloc response_size, Call_write req] @ reads_trace 0 frags
      \<and> accumulate e sts 0 (loop_entry (map junk [0..<response_size]) req) =
         (if has_terminator (take (response_size - 1) (concat frags))
          then Left_loop s else accumulate e sts (length frags) s)"
proof -
  let ?s0 = "loop_entry (map junk [0..<response_size]) req"
  have "0 < length (concat frags)"
    using delivers_butlast_shorter [OF frags(2,1)] by linarith
  then have nonempty: "take (response_size - 1) (concat frags) \<noteq> []"
    by (cases "concat frags") (simp_all add: response_size_def)
  have "\<exists>s'. holds s' (take (response_size - 1) ([] @ concat frags))
      \<and> effects s' = effects ?s0 @ reads_trace (length ([] :: string)) frags
      \<and> accumulate e sts 0 ?s0 =
         (if has_terminator (take (response_size - 1) ([] @ concat frags))
          then Left_loop s' else accumulate e sts (0 + length frags) s')"
  proof (rule accumulate_fragments)
    show "holds ?s0 []"
      by (rule loop_entry_holds)
    show "delivers sts 0 frags" "frags \<noteq> []"
      by (rule frags)+
    show "length ([] @ concat (butlast frags)) < response_size - 1"
      using room by simp
    show "\<not> has_terminator ([] @ concat (take i frags))" if "0 < i" "i < length frags" for i
      using incomplete [OF that] by simp
  qed
  with nonempty show ?thesis
    by (auto simp: loop_entry_def)
qed

text \<open>The buffer is full and \<^verbatim>\<open>strstr\<close> finds no terminator in it.\<close>

lemma connect_too_large_after:
  assumes alloc: "malloc_res env = Some junk"
    and fits: "length (format_request dest_host dest_port (proxy_auth_header mosq)) < request_size"
    and written: "write_ret env
        = int (length (format_request dest_host dest_port (proxy_auth_header mosq)))"
    and frags: "frags \<noteq> []" "delivers (steps env) 0 frags"
    and room: "length (concat (butlast frags)) < response_size - 1"
    and incomplete: "\<And>i. 0 < i \<Longrightarrow> i < length frags
        \<Longrightarrow> \<not> has_terminator (concat (take i frags))"
    and full: "response_size - 1 \<le> length (concat frags)"
    and never: "\<not> has_terminator (take (response_size - 1) (concat frags))"
  shows "net__proxy_connect mosq dest_host dest_port env =
        Some (MOSQ_ERR_PROXY,
              [Call_malloc response_size,
               Call_write (format_request dest_host dest_port (proxy_auth_header mosq))]
              @ reads_trace 0 frags
              @ [Call_free,
                 Call_log MOSQ_LOG_ERR ''Proxy response headers too long or incomplete.'' []])"
proof -
  let ?req = "format_request dest_host dest_port (proxy_auth_header mosq)"
  let ?kept = "take (response_size - 1) (concat frags)"
  from fragments_read [OF frags room incomplete, of ?req "errno_text env" junk] never
  obtain s where s: "holds s ?kept" and ne: "?kept \<noteq> []"
    and eff: "effects s = [Call_malloc response_size, Call_write ?req] @ reads_trace 0 frags"
    and loop: "accumulate (errno_text env) (steps env) 0
        (loop_entry (map junk [0..<response_size]) ?req)
        = accumulate (errno_text env) (steps env) (length frags) s"
    by auto
  from s full have "\<not> total_read s < response_size - 1"
    by (simp add: holds_def)
  then have left: "accumulate (errno_text env) (steps env) (length frags) s = Left_loop s"
    by (rule accumulate_full)
  have "strstr (c_str (response s)) terminator = None"
    using never holds_c_str [OF s ne] by (simp add: has_terminator_def)
  from validate_incomplete [OF this] loop left eff show ?thesis
    by (simp add: connect_enters_loop [OF alloc fits written] emit_def)
qed

text \<open>\<^verbatim>\<open>strstr\<close> finds the terminator and the status prefix is not a 200 one.\<close>

lemma connect_rejected_after:
  assumes alloc: "malloc_res env = Some junk"
    and fits: "length (format_request dest_host dest_port (proxy_auth_header mosq)) < request_size"
    and written: "write_ret env
        = int (length (format_request dest_host dest_port (proxy_auth_header mosq)))"
    and frags: "frags \<noteq> []" "delivers (steps env) 0 frags"
    and room: "length (concat (butlast frags)) < response_size - 1"
    and incomplete: "\<And>i. 0 < i \<Longrightarrow> i < length frags
        \<Longrightarrow> \<not> has_terminator (concat (take i frags))"
    and complete: "has_terminator (take (response_size - 1) (concat frags))"
    and status: "take 12 (take (response_size - 1) (concat frags)) \<noteq> ''HTTP/1.1 200''"
      "take 12 (take (response_size - 1) (concat frags)) \<noteq> ''HTTP/1.0 200''"
  shows "\<exists>i. strstr (c_str (take (response_size - 1) (concat frags))) CRLF = Some i
      \<and> net__proxy_connect mosq dest_host dest_port env =
        Some (MOSQ_ERR_PROXY,
              [Call_malloc response_size,
               Call_write (format_request dest_host dest_port (proxy_auth_header mosq))]
              @ reads_trace 0 frags
              @ [Call_log MOSQ_LOG_ERR ''Proxy CONNECT failed: %s''
                   [take i (c_str (take (response_size - 1) (concat frags)))],
                 Call_free])"
proof -
  let ?req = "format_request dest_host dest_port (proxy_auth_header mosq)"
  let ?kept = "take (response_size - 1) (concat frags)"
  from fragments_read [OF frags room incomplete, of ?req "errno_text env" junk] complete
  obtain s where s: "holds s ?kept" and ne: "?kept \<noteq> []"
    and eff: "effects s = [Call_malloc response_size, Call_write ?req] @ reads_trace 0 frags"
    and loop: "accumulate (errno_text env) (steps env) 0
        (loop_entry (map junk [0..<response_size]) ?req) = Left_loop s"
    by auto
  have cs: "c_str (response s) = c_str ?kept"
    using s ne by (rule holds_c_str)
  have found: "strstr (c_str (response s)) terminator \<noteq> None"
    using complete by (simp add: has_terminator_def cs)
  have st: "take 12 (c_str (response s)) \<noteq> ''HTTP/1.1 200''"
    "take 12 (c_str (response s)) \<noteq> ''HTTP/1.0 200''"
    unfolding cs using status status_prefix_c_str [of ?kept] by blast+
  from validate_rejected [OF found st] obtain i s'
    where i: "strstr (c_str (response s)) CRLF = Some i"
      and v: "validate s = Some (MOSQ_ERR_PROXY, s')"
      and eff': "effects s' = effects s @
        [Call_log MOSQ_LOG_ERR ''Proxy CONNECT failed: %s'' [take i (c_str (response s))],
         Call_free]"
    by blast
  have "net__proxy_connect mosq dest_host dest_port env = Some (MOSQ_ERR_PROXY, effects s')"
    using loop v by (simp add: connect_enters_loop [OF alloc fits written])
  with i eff eff' show ?thesis
    by (simp add: cs)
qed

lemma distinct_failure_formats: "distinct failure_formats"
  by (simp add: failure_formats_def loop_failure_formats_def)

section \<open>The claims\<close>

subsection \<open>C1: a response delivered in fragments\<close>




subsection \<open>C2: the status line decides\<close>

text \<open>
  C2, as the code has it. Let the buffer be allocated and the request written
  in full, and let the loop be left with a response that contains the
  terminator before any NUL byte (in the bytes before the first NUL, where
  \<^verbatim>\<open>strstr\<close> looks). If the response starts with the twelve bytes
  "HTTP/1.1 200" or "HTTP/1.0 200", the function logs the success and returns
  \<open>MOSQ_ERR_SUCCESS\<close>; with any other start it logs "Proxy CONNECT failed: %s"
  with the status line (the response up to the first CRLF) and returns
  \<open>MOSQ_ERR_PROXY\<close>.
\<close>

theorem status_prefix_decides:
  assumes alloc: "malloc_res env = Some junk"
    and fits: "length (format_request dest_host dest_port (proxy_auth_header mosq)) < request_size"
    and written: "write_ret env
        = int (length (format_request dest_host dest_port (proxy_auth_header mosq)))"
    and left: "accumulate (errno_text env) (steps env) 0
        (loop_entry (map junk [0..<response_size])
           (format_request dest_host dest_port (proxy_auth_header mosq))) = Left_loop s"
    and found: "sublist terminator (c_str (response s))"
  shows "if take 12 (response s) = ''HTTP/1.1 200'' \<or> take 12 (response s) = ''HTTP/1.0 200''
    then net__proxy_connect mosq dest_host dest_port env =
        Some (MOSQ_ERR_SUCCESS,
              effects s @
              [Call_log MOSQ_LOG_INFO ''Successfully connected to MQTT broker via proxy.'' [],
               Call_free])
    else \<exists>i. strstr (c_str (response s)) CRLF = Some i
      \<and> net__proxy_connect mosq dest_host dest_port env =
          Some (MOSQ_ERR_PROXY,
                effects s @
                [Call_log MOSQ_LOG_ERR ''Proxy CONNECT failed: %s''
                   [take i (c_str (response s))],
                 Call_free])"
proof -
  from found have found': "strstr (c_str (response s)) terminator \<noteq> None"
    by (simp add: strstr_None_iff)
  show ?thesis
  proof (cases "take 12 (response s) = ''HTTP/1.1 200''
            \<or> take 12 (response s) = ''HTTP/1.0 200''")
    case True
    then have "take 12 (c_str (response s)) = ''HTTP/1.1 200''
          \<or> take 12 (c_str (response s)) = ''HTTP/1.0 200''"
      by (simp only: status_prefix_c_str)
    from validate_accepted [OF found' this] left True show ?thesis
      by (simp add: connect_enters_loop [OF alloc fits written] emit_def)
  next
    case False
    then have "take 12 (c_str (response s)) \<noteq> ''HTTP/1.1 200''"
      and "take 12 (c_str (response s)) \<noteq> ''HTTP/1.0 200''"
      by (simp_all only: status_prefix_c_str) simp_all
    from validate_rejected [OF found' this] obtain i s'
      where "strstr (c_str (response s)) CRLF = Some i"
        and "validate s = Some (MOSQ_ERR_PROXY, s')"
        and "effects s' = effects s @
          [Call_log MOSQ_LOG_ERR ''Proxy CONNECT failed: %s'' [take i (c_str (response s))],
           Call_free]"
      by blast
    with left False show ?thesis
      by (simp add: connect_enters_loop [OF alloc fits written])
  qed
qed

theorem status_prefix_decides_witness:
  "net__proxy_connect example_mosq ''example.com'' 1883
     (example_env [ready_with (''HTTP/1.0 200 Connection established'' @ CRLF @ CRLF)]) =
   Some (MOSQ_ERR_SUCCESS,
         [Call_malloc 2048, Call_write example_request, Call_poll 10000, Call_read 0 2047,
          Call_log MOSQ_LOG_INFO ''Successfully connected to MQTT broker via proxy.'' [],
          Call_free])
   \<and> net__proxy_connect example_mosq ''example.com'' 1883
     (example_env
        [ready_with (''HTTP/1.1 407 Proxy Authentication Required'' @ CRLF @ CRLF)]) =
   Some (MOSQ_ERR_PROXY,
         [Call_malloc 2048, Call_write example_request, Call_poll 10000, Call_read 0 2047,
          Call_log MOSQ_LOG_ERR ''Proxy CONNECT failed: %s''
            [''HTTP/1.1 407 Proxy Authentication Required''],
          Call_free])
   \<and> net__proxy_connect example_mosq ''example.com'' 1883
     (example_env [ready_with (''HTTP/1.1 204 No Content'' @ CRLF @ CRLF)]) =
   Some (MOSQ_ERR_PROXY,
         [Call_malloc 2048, Call_write example_request, Call_poll 10000, Call_read 0 2047,
          Call_log MOSQ_LOG_ERR ''Proxy CONNECT failed: %s'' [''HTTP/1.1 204 No Content''],
          Call_free])"
proof -
  have pre: "malloc_res (example_env a) = Some (\<lambda>i. CHR ''?'')"
    "length (format_request ''example.com'' 1883 (proxy_auth_header example_mosq)) < request_size"
    "write_ret (example_env a)
        = int (length (format_request ''example.com'' 1883 (proxy_auth_header example_mosq)))"
    for a
    by (simp_all add: example_env_simps example_request_eq example_request_length
        request_size_def)
  let ?r1 = "''HTTP/1.0 200 Connection established'' @ CRLF @ CRLF"
  let ?r2 = "''HTTP/1.1 407 Proxy Authentication Required'' @ CRLF @ CRLF"
  let ?r3 = "''HTTP/1.1 204 No Content'' @ CRLF @ CRLF"
  have "?r1 \<noteq> []" "length ?r1 \<le> response_size - 1" "NUL \<notin> set ?r1"
    "strstr ?r1 terminator \<noteq> None"
    by (simp_all add: CRLF_def NUL_def terminator_def response_size_def)
  from example_single_response [OF this] obtain s1
    where s1: "accumulate ''EIO'' (steps (example_env [ready_with ?r1])) 0
        (loop_entry (map (\<lambda>i. CHR ''?'') [0..<response_size]) example_request) = Left_loop s1"
      "effects s1 = [Call_malloc response_size, Call_write example_request,
          Call_poll connect_timeout_ms, Call_read 0 (response_size - 1)]"
      "c_str (response s1) = ?r1"
    by blast
  have "?r2 \<noteq> []" "length ?r2 \<le> response_size - 1" "NUL \<notin> set ?r2"
    "strstr ?r2 terminator \<noteq> None"
    by (simp_all add: CRLF_def NUL_def terminator_def response_size_def)
  from example_single_response [OF this] obtain s2
    where s2: "accumulate ''EIO'' (steps (example_env [ready_with ?r2])) 0
        (loop_entry (map (\<lambda>i. CHR ''?'') [0..<response_size]) example_request) = Left_loop s2"
      "effects s2 = [Call_malloc response_size, Call_write example_request,
          Call_poll connect_timeout_ms, Call_read 0 (response_size - 1)]"
      "c_str (response s2) = ?r2"
    by blast
  have "?r3 \<noteq> []" "length ?r3 \<le> response_size - 1" "NUL \<notin> set ?r3"
    "strstr ?r3 terminator \<noteq> None"
    by (simp_all add: CRLF_def NUL_def terminator_def response_size_def)
  from example_single_response [OF this] obtain s3
    where s3: "accumulate ''EIO'' (steps (example_env [ready_with ?r3])) 0
        (loop_entry (map (\<lambda>i. CHR ''?'') [0..<response_size]) example_request) = Left_loop s3"
      "effects s3 = [Call_malloc response_size, Call_write example_request,
          Call_poll connect_timeout_ms, Call_read 0 (response_size - 1)]"
      "c_str (response s3) = ?r3"
    by blast
  have p1: "take 12 (response s1) = ''HTTP/1.0 200''"
    using status_prefix_c_str(2) [of "response s1"] by (simp add: s1(3))
  have p2: "take 12 (response s2) \<noteq> ''HTTP/1.1 200''"
    "take 12 (response s2) \<noteq> ''HTTP/1.0 200''"
    using status_prefix_c_str [of "response s2"] by (simp_all add: s2(3))
  have p3: "take 12 (response s3) \<noteq> ''HTTP/1.1 200''"
    "take 12 (response s3) \<noteq> ''HTTP/1.0 200''"
    using status_prefix_c_str [of "response s3"] by (simp_all add: s3(3))
  have f1: "sublist terminator (c_str (response s1))"
    and f2: "sublist terminator (c_str (response s2))"
    and f3: "sublist terminator (c_str (response s3))"
    by (simp_all add: s1(3) s2(3) s3(3) sublist_iff_strstr terminator_def CRLF_def)
  have "net__proxy_connect example_mosq ''example.com'' 1883 (example_env [ready_with ?r1]) =
      Some (MOSQ_ERR_SUCCESS, effects s1 @
        [Call_log MOSQ_LOG_INFO ''Successfully connected to MQTT broker via proxy.'' [],
         Call_free])"
    using status_prefix_decides [OF pre, of "[ready_with ?r1]" s1] s1(1) f1 p1
    by (simp add: example_env_simps example_request_eq)
  moreover have "net__proxy_connect example_mosq ''example.com'' 1883
      (example_env [ready_with ?r2]) =
      Some (MOSQ_ERR_PROXY, effects s2 @
        [Call_log MOSQ_LOG_ERR ''Proxy CONNECT failed: %s''
           [''HTTP/1.1 407 Proxy Authentication Required''], Call_free])"
    using status_prefix_decides [OF pre, of "[ready_with ?r2]" s2] s2(1) f2 p2
    by (simp add: example_env_simps example_request_eq s2(3) CRLF_def)
  moreover have "net__proxy_connect example_mosq ''example.com'' 1883
      (example_env [ready_with ?r3]) =
      Some (MOSQ_ERR_PROXY, effects s3 @
        [Call_log MOSQ_LOG_ERR ''Proxy CONNECT failed: %s'' [''HTTP/1.1 204 No Content''],
         Call_free])"
    using status_prefix_decides [OF pre, of "[ready_with ?r3]" s3] s3(1) f3 p3
    by (simp add: example_env_simps example_request_eq s3(3) CRLF_def)
  ultimately show ?thesis
    by (simp add: s1(2) s2(2) s3(2) response_size_def connect_timeout_ms_def)
qed

text \<open>
  C2 as stated fails for a response with a NUL byte before the terminator: the
  bytes read contain the terminator and start with "HTTP/1.1 200", but
  \<^verbatim>\<open>strstr\<close> stops at the NUL, so the loop waits again and the status line is
  never checked; here the next wait sees no event and the function returns
  \<open>MOSQ_ERR_PROXY\<close> with "Proxy connect timed out.", neither success nor the
  rejection of the status line.
\<close>

theorem status_prefix_decides_counterexample:
  "sublist terminator (''HTTP/1.1 200 OK'' @ [NUL] @ CRLF @ CRLF)
   \<and> take 12 (''HTTP/1.1 200 OK'' @ [NUL] @ CRLF @ CRLF) = ''HTTP/1.1 200''
   \<and> net__proxy_connect example_mosq ''example.com'' 1883
       (example_env [ready_with (''HTTP/1.1 200 OK'' @ [NUL] @ CRLF @ CRLF)]) =
     Some (MOSQ_ERR_PROXY,
           [Call_malloc 2048, Call_write example_request,
            Call_poll 10000, Call_read 0 2047,
            Call_poll 10000, Call_free,
            Call_log MOSQ_LOG_ERR ''Proxy connect timed out.'' []])"
proof -
  let ?frags = "[''HTTP/1.1 200 OK'' @ [NUL] @ CRLF @ CRLF]"
  let ?env = "example_env (map ready_with ?frags @ [])"
  have "net__proxy_connect example_mosq ''example.com'' 1883 ?env =
        Some (MOSQ_ERR_PROXY,
              [Call_malloc response_size,
               Call_write (format_request ''example.com'' 1883 (proxy_auth_header example_mosq))]
              @ reads_trace 0 ?frags
              @ [Call_poll connect_timeout_ms, Call_free,
                 Call_log MOSQ_LOG_ERR ''Proxy connect timed out.'' []])"
  proof (rule connect_returns_after)
    show "malloc_res ?env = Some (\<lambda>i. CHR ''?'')"
      by (rule example_pre)
    show "length (format_request ''example.com'' 1883 (proxy_auth_header example_mosq))
        < request_size"
      by (rule example_pre)
    show "write_ret ?env
        = int (length (format_request ''example.com'' 1883 (proxy_auth_header example_mosq)))"
      by (rule example_pre)
    show "delivers (steps ?env) 0 ?frags"
      by (simp only: example_delivers) simp
    show "length (concat ?frags) < response_size - 1"
      by (simp add: response_size_def CRLF_def)
    show "\<not> has_terminator (concat (take i ?frags))" if "0 < i" "i \<le> length ?frags" for i
    proof -
      from that have "i = 1" by simp
      then show ?thesis
        by (simp add: has_terminator_def c_str_def NUL_def terminator_def CRLF_def)
    qed
    show "loop_body (errno_text ?env) (steps ?env (length ?frags)) s
        = Return MOSQ_ERR_PROXY (emit s [Call_poll connect_timeout_ms, Call_free,
                 Call_log MOSQ_LOG_ERR ''Proxy connect timed out.'' []])" for s
      by (rule loop_body_timeout) (simp add: example_env_def no_event_def)
  qed
  then have "net__proxy_connect example_mosq ''example.com'' 1883
       (example_env [ready_with (''HTTP/1.1 200 OK'' @ [NUL] @ CRLF @ CRLF)]) =
     Some (MOSQ_ERR_PROXY,
           [Call_malloc 2048, Call_write example_request,
            Call_poll 10000, Call_read 0 2047,
            Call_poll 10000, Call_free,
            Call_log MOSQ_LOG_ERR ''Proxy connect timed out.'' []])"
    by (simp add: example_request_eq response_size_def connect_timeout_ms_def)
  moreover have "sublist terminator (''HTTP/1.1 200 OK'' @ [NUL] @ CRLF @ CRLF)"
    by (simp add: sublist_iff_strstr terminator_def CRLF_def NUL_def)
  moreover have "take 12 (''HTTP/1.1 200 OK'' @ [NUL] @ CRLF @ CRLF) = ''HTTP/1.1 200''"
    by simp
  ultimately show ?thesis
    by blast
qed

subsection \<open>C3: a response without terminator\<close>

text \<open>
  C3. Let the buffer be allocated and the request written in full, let the
  environment deliver bytes in every iteration as long as fewer than
  \<open>response_size - 1\<close> bytes have arrived, and let the first \<open>response_size - 1\<close>
  bytes of the stream not contain the terminator. Then the loop ends by its
  condition and the function returns \<open>MOSQ_ERR_PROXY\<close> after releasing the buffer
  and logging "Proxy response headers too long or incomplete.". Moreover, for
  all inputs and environments whatsoever, no store leaves the response buffer
  (the function has a result), and every read is asked for exactly the bytes
  between the cursor and index \<open>response_size - 1\<close>; and whenever the loop is
  left, the cursor is at most \<open>response_size - 1\<close>, so that the NUL stored
  after a read lands inside the buffer.
\<close>

theorem response_too_large:
  assumes alloc: "malloc_res env = Some junk"
    and fits: "length (format_request dest_host dest_port (proxy_auth_header mosq)) < request_size"
    and written: "write_ret env
        = int (length (format_request dest_host dest_port (proxy_auth_header mosq)))"
    and flows: "\<And>k. length (concat (first_chunks (steps env) k)) < response_size - 1
        \<Longrightarrow> readable (steps env) k"
    and never: "\<not> sublist terminator
        (take (response_size - 1) (concat (first_chunks (steps env) (response_size - 1))))"
  shows "(\<exists>ios. net__proxy_connect mosq dest_host dest_port env =
          Some (MOSQ_ERR_PROXY,
                [Call_malloc response_size,
                 Call_write (format_request dest_host dest_port (proxy_auth_header mosq))]
                @ ios
                @ [Call_free,
                   Call_log MOSQ_LOG_ERR
                     ''Proxy response headers too long or incomplete.'' []])
          \<and> list_all loop_call_ok ios)
    \<and> (\<forall>mosq' host' port' env'. \<exists>rc es.
          net__proxy_connect mosq' host' port' env' = Some (rc, es)
          \<and> (\<forall>off cnt. Call_read off cnt \<in> set es \<longrightarrow> off + cnt = response_size - 1))
    \<and> (\<forall>e sts junk' req.
          accumulate e sts 0 (loop_entry (map junk' [0..<response_size]) req) \<noteq> Overrun
          \<and> (\<forall>s. accumulate e sts 0 (loop_entry (map junk' [0..<response_size]) req)
                  = Left_loop s
                \<longrightarrow> length (response s) = response_size
                  \<and> total_read s \<le> response_size - 1))"
proof -
  let ?req = "format_request dest_host dest_port (proxy_auth_header mosq)"
  let ?s0 = "loop_entry (map junk [0..<response_size]) ?req"
  from accumulate_until_full [OF flows never, of "errno_text env" junk ?req]
  obtain s where loop: "accumulate (errno_text env) (steps env) 0 ?s0 = Left_loop s"
    and none: "strstr (c_str (response s)) terminator = None"
    by blast
  from accumulate_exits [OF loop_entry_buf_ok [of junk ?req],
      where e = "errno_text env" and sts = "steps env" and k = 0] loop
  obtain ios where ios: "effects s = [Call_malloc response_size, Call_write ?req] @ ios"
    "list_all loop_call_ok ios"
    by (auto simp: loop_entry_def)
  have run: "net__proxy_connect mosq dest_host dest_port env =
      Some (MOSQ_ERR_PROXY, [Call_malloc response_size, Call_write ?req] @ ios
        @ [Call_free, Call_log MOSQ_LOG_ERR
             ''Proxy response headers too long or incomplete.'' []])"
    using loop ios(1)
    by (simp add: connect_enters_loop [OF alloc fits written] validate_incomplete [OF none]
        emit_def)
  have safe: "\<exists>rc es. net__proxy_connect mosq' host' port' env' = Some (rc, es)
      \<and> (\<forall>off cnt. Call_read off cnt \<in> set es \<longrightarrow> off + cnt = response_size - 1)"
    for mosq' host' port' env'
  proof -
    from connect_shape [of mosq' host' port' env'] obtain rc pre ios tail
      where run': "net__proxy_connect mosq' host' port' env' = Some (rc, pre @ ios @ tail)"
        and pre: "pre = [Call_malloc response_size]
          \<or> pre = [Call_malloc response_size,
                    Call_write (format_request host' port' (proxy_auth_header mosq'))]"
        and calls: "list_all loop_call_ok ios"
        and tail: "rc = MOSQ_ERR_NOMEM \<and> tail = []
          \<or> (\<exists>fmt args. rc = MOSQ_ERR_PROXY \<and> tail = [Call_free, Call_log MOSQ_LOG_ERR fmt args]
                \<and> fmt \<in> set failure_formats)
          \<or> (\<exists>line. rc = MOSQ_ERR_PROXY
                \<and> tail = [Call_log MOSQ_LOG_ERR ''Proxy CONNECT failed: %s'' [line], Call_free])
          \<or> rc = MOSQ_ERR_SUCCESS
              \<and> tail = [Call_log MOSQ_LOG_INFO
                           ''Successfully connected to MQTT broker via proxy.'' [],
                         Call_free]"
      by blast
    have "off + cnt = response_size - 1" if "Call_read off cnt \<in> set (pre @ ios @ tail)"
      for off cnt
    proof -
      from that pre tail have "Call_read off cnt \<in> set ios"
        by auto
      with calls have "loop_call_ok (Call_read off cnt)"
        unfolding list_all_iff by blast
      then show ?thesis by simp
    qed
    with run' show ?thesis
      by blast
  qed
  have cursor: "accumulate e sts 0 (loop_entry (map junk' [0..<response_size]) req) \<noteq> Overrun
      \<and> (\<forall>s. accumulate e sts 0 (loop_entry (map junk' [0..<response_size]) req) = Left_loop s
            \<longrightarrow> length (response s) = response_size \<and> total_read s \<le> response_size - 1)"
    for e sts junk' req
    using accumulate_exits [OF loop_entry_buf_ok [of junk' req],
        where e = e and sts = sts and k = 0]
    by (cases "accumulate e sts 0 (loop_entry (map junk' [0..<response_size]) req)")
      (simp_all add: buf_ok_def)
  from run ios(2) have "\<exists>ios. net__proxy_connect mosq dest_host dest_port env =
          Some (MOSQ_ERR_PROXY,
                [Call_malloc response_size, Call_write ?req] @ ios
                @ [Call_free,
                   Call_log MOSQ_LOG_ERR
                     ''Proxy response headers too long or incomplete.'' []])
          \<and> list_all loop_call_ok ios"
    by blast
  with safe cursor show ?thesis
    by (intro conjI allI) blast+
qed

theorem response_too_large_witness:
  "\<exists>ios. net__proxy_connect example_mosq ''example.com'' 1883 trickle_env =
          Some (MOSQ_ERR_PROXY,
                [Call_malloc response_size, Call_write example_request]
                @ ios
                @ [Call_free,
                   Call_log MOSQ_LOG_ERR
                     ''Proxy response headers too long or incomplete.'' []])
          \<and> list_all loop_call_ok ios"
proof -
  have bytes: "set (concat (first_chunks (steps trickle_env) n)) \<subseteq> {CHR ''a''}" for n
    by (auto simp: first_chunks_def chunk_def trickle_env_def ready_with_def)
  have never: "\<not> sublist terminator
      (take (response_size - 1) (concat (first_chunks (steps trickle_env) (response_size - 1))))"
  proof
    assume "sublist terminator
      (take (response_size - 1) (concat (first_chunks (steps trickle_env) (response_size - 1))))"
    then have "set terminator
      \<subseteq> set (take (response_size - 1)
          (concat (first_chunks (steps trickle_env) (response_size - 1))))"
      by (rule set_mono_sublist)
    also have "\<dots> \<subseteq> set (concat (first_chunks (steps trickle_env) (response_size - 1)))"
      by (rule set_take_subset)
    also note bytes
    finally show False
      by (simp add: terminator_def CRLF_def)
  qed
  have flows: "readable (steps trickle_env) k" for k
    by (simp add: readable_def chunk_def trickle_env_def ready_with_def POLLIN_set)
  have "\<exists>ios. net__proxy_connect example_mosq ''example.com'' 1883 trickle_env =
          Some (MOSQ_ERR_PROXY,
                [Call_malloc response_size,
                 Call_write (format_request ''example.com'' 1883
                   (proxy_auth_header example_mosq))]
                @ ios
                @ [Call_free,
                   Call_log MOSQ_LOG_ERR
                     ''Proxy response headers too long or incomplete.'' []])
          \<and> list_all loop_call_ok ios"
  proof (rule response_too_large [THEN conjunct1])
    show "malloc_res trickle_env = Some (\<lambda>i. CHR ''?'')"
      by (simp add: trickle_env_def)
    show "length (format_request ''example.com'' 1883 (proxy_auth_header example_mosq))
        < request_size"
      by (rule example_pre)
    show "write_ret trickle_env
        = int (length (format_request ''example.com'' 1883 (proxy_auth_header example_mosq)))"
      by (simp add: trickle_env_def example_request_eq example_request_length)
    show "readable (steps trickle_env) k" for k
      by (rule flows)
    show "\<not> sublist terminator
      (take (response_size - 1) (concat (first_chunks (steps trickle_env) (response_size - 1))))"
      by (rule never)
  qed
  then show ?thesis
    by (simp add: example_request_eq)
qed

subsection \<open>C4: the format of the request\<close>

text \<open>
  C4. A call of \<^verbatim>\<open>mosquitto_proxy_set\<close> with a host, a port from 1 to 65535 and
  successful allocations returns \<open>MOSQ_ERR_SUCCESS\<close> and stores the host, the
  port and, for a non-empty authorization value, the line
  "Proxy-Authorization: " with the value and CRLF (no line for a \<^verbatim>\<open>NULL\<close> or
  empty value). With that configuration, the request that \<^verbatim>\<open>net__proxy_connect\<close>
  formats for a destination is the \<^verbatim>\<open>CONNECT\<close> line, the \<^verbatim>\<open>Host\<close> line, then the
  stored line if there is one and nothing otherwise, then CRLF, the port
  being written in decimal; it ends with CRLF CRLF; and when the buffer is
  allocated and the request fits, exactly this text is what the function
  hands to \<^verbatim>\<open>net__write\<close>, as its first call after the allocation.
\<close>

theorem connect_request_format:
  assumes port: "1 \<le> p" "p \<le> 65535"
    and heap: "auth_line auth_value \<noteq> None \<longrightarrow> heap \<noteq> None"
    and m': "m' = m\<lparr>proxy_host := Some h, proxy_port := p,
                    proxy_auth_header := auth_line auth_value\<rparr>"
  shows "mosquitto_proxy_set (Some m) (Some h) p auth_value True heap
        = (MOSQ_ERR_SUCCESS, Some m')
    \<and> format_request dest_host dest_port (proxy_auth_header m') =
      ''CONNECT '' @ dest_host @ '':'' @ fmt_d dest_port @ '' HTTP/1.1'' @ CRLF
      @ ''Host: '' @ dest_host @ '':'' @ fmt_d dest_port @ CRLF
      @ (case auth_value of
           None \<Rightarrow> []
         | Some av \<Rightarrow> if av = [] then [] else ''Proxy-Authorization: '' @ av @ CRLF)
      @ CRLF
    \<and> fmt_d dest_port
        = (if dest_port < 0 then ''-'' else []) @ dec_nat (nat \<bar>dest_port\<bar>)
    \<and> digits_value (dec_nat (nat \<bar>dest_port\<bar>)) = nat \<bar>dest_port\<bar>
    \<and> suffix (CRLF @ CRLF) (format_request dest_host dest_port (proxy_auth_header m'))
    \<and> (malloc_res env \<noteq> None
        \<and> length (format_request dest_host dest_port (proxy_auth_header m')) < request_size
        \<longrightarrow> (\<exists>rc es. net__proxy_connect m' dest_host dest_port env =
              Some (rc, Call_malloc response_size
                        # Call_write (format_request dest_host dest_port (proxy_auth_header m'))
                        # es)))"
proof (intro conjI impI)
  have header: "proxy_auth_header m' = auth_line auth_value"
    by (simp add: m')
  show "mosquitto_proxy_set (Some m) (Some h) p auth_value True heap
        = (MOSQ_ERR_SUCCESS, Some m')"
    unfolding m' using port heap by (rule proxy_set_stores)
  show "format_request dest_host dest_port (proxy_auth_header m') =
      ''CONNECT '' @ dest_host @ '':'' @ fmt_d dest_port @ '' HTTP/1.1'' @ CRLF
      @ ''Host: '' @ dest_host @ '':'' @ fmt_d dest_port @ CRLF
      @ (case auth_value of
           None \<Rightarrow> []
         | Some av \<Rightarrow> if av = [] then [] else ''Proxy-Authorization: '' @ av @ CRLF)
      @ CRLF"
    by (simp add: format_request_def header auth_line_def split: option.splits)
  show "fmt_d dest_port = (if dest_port < 0 then ''-'' else []) @ dec_nat (nat \<bar>dest_port\<bar>)"
    by (simp add: fmt_d_def)
  show "digits_value (dec_nat (nat \<bar>dest_port\<bar>)) = nat \<bar>dest_port\<bar>"
    by (rule digits_value_dec_nat)
  show "suffix (CRLF @ CRLF) (format_request dest_host dest_port (proxy_auth_header m'))"
    unfolding header using auth_line_shape by (rule format_request_suffix)
next
  assume ready: "malloc_res env \<noteq> None
      \<and> length (format_request dest_host dest_port (proxy_auth_header m')) < request_size"
  from connect_shape [of m' dest_host dest_port env] obtain rc pre ios tail
    where "net__proxy_connect m' dest_host dest_port env = Some (rc, pre @ ios @ tail)"
      and "malloc_res env \<noteq> None
          \<and> length (format_request dest_host dest_port (proxy_auth_header m')) < request_size
        \<longrightarrow> pre = [Call_malloc response_size,
                  Call_write (format_request dest_host dest_port (proxy_auth_header m'))]"
    by blast
  with ready have "net__proxy_connect m' dest_host dest_port env =
      Some (rc, Call_malloc response_size
                # Call_write (format_request dest_host dest_port (proxy_auth_header m'))
                # (ios @ tail))"
    by simp
  then show "\<exists>rc es. net__proxy_connect m' dest_host dest_port env =
      Some (rc, Call_malloc response_size
                # Call_write (format_request dest_host dest_port (proxy_auth_header m'))
                # es)"
    by blast
qed

theorem connect_request_format_witness:
  "mosquitto_proxy_set
     (Some \<lparr>sock = 3, proxy_host = None, proxy_port = 0, proxy_auth_header = None\<rparr>)
     (Some ''proxy.local'') 3128 (Some ''Basic dXNlcjpwYXNz'') True (Some (\<lambda>i. CHR ''?''))
   = (MOSQ_ERR_SUCCESS,
      Some \<lparr>sock = 3, proxy_host = Some ''proxy.local'', proxy_port = 3128,
            proxy_auth_header = Some (''Proxy-Authorization: Basic dXNlcjpwYXNz'' @ CRLF)\<rparr>)
   \<and> format_request ''example.com'' 1883
       (proxy_auth_header
          \<lparr>sock = 3, proxy_host = Some ''proxy.local'', proxy_port = 3128,
           proxy_auth_header = Some (''Proxy-Authorization: Basic dXNlcjpwYXNz'' @ CRLF)\<rparr>) =
     ''CONNECT example.com:1883 HTTP/1.1'' @ CRLF @ ''Host: example.com:1883'' @ CRLF
     @ ''Proxy-Authorization: Basic dXNlcjpwYXNz'' @ CRLF @ CRLF
   \<and> (\<exists>rc es. net__proxy_connect
          \<lparr>sock = 3, proxy_host = Some ''proxy.local'', proxy_port = 3128,
           proxy_auth_header = Some (''Proxy-Authorization: Basic dXNlcjpwYXNz'' @ CRLF)\<rparr>
          ''example.com'' 1883 (example_env []) =
        Some (rc, Call_malloc response_size
                  # Call_write (''CONNECT example.com:1883 HTTP/1.1'' @ CRLF
                      @ ''Host: example.com:1883'' @ CRLF
                      @ ''Proxy-Authorization: Basic dXNlcjpwYXNz'' @ CRLF @ CRLF)
                  # es))
   \<and> mosquitto_proxy_set
     (Some \<lparr>sock = 3, proxy_host = Some ''old.proxy'', proxy_port = 8080,
            proxy_auth_header = Some (''Proxy-Authorization: Basic b2xk'' @ CRLF)\<rparr>)
     (Some ''proxy.local'') 3128 None True None
   = (MOSQ_ERR_SUCCESS,
      Some \<lparr>sock = 3, proxy_host = Some ''proxy.local'', proxy_port = 3128,
            proxy_auth_header = None\<rparr>)
   \<and> format_request ''broker.lan'' 8883
       (proxy_auth_header
          \<lparr>sock = 3, proxy_host = Some ''proxy.local'', proxy_port = 3128,
           proxy_auth_header = None\<rparr>) =
     ''CONNECT broker.lan:8883 HTTP/1.1'' @ CRLF @ ''Host: broker.lan:8883'' @ CRLF @ CRLF"
proof -
  let ?u = "\<lparr>sock = 3, proxy_host = None, proxy_port = 0, proxy_auth_header = None\<rparr>"
  let ?o = "\<lparr>sock = 3, proxy_host = Some ''old.proxy'', proxy_port = 8080,
            proxy_auth_header = Some (''Proxy-Authorization: Basic b2xk'' @ CRLF)\<rparr>"
  let ?m1 = "\<lparr>sock = 3, proxy_host = Some ''proxy.local'', proxy_port = 3128,
            proxy_auth_header = Some (''Proxy-Authorization: Basic dXNlcjpwYXNz'' @ CRLF)\<rparr>"
  let ?m0 = "\<lparr>sock = 3, proxy_host = Some ''proxy.local'', proxy_port = 3128,
            proxy_auth_header = None\<rparr>"
  let ?r1 = "''CONNECT example.com:1883 HTTP/1.1'' @ CRLF @ ''Host: example.com:1883'' @ CRLF
     @ ''Proxy-Authorization: Basic dXNlcjpwYXNz'' @ CRLF @ CRLF"
  have m1: "?m1 = ?u\<lparr>proxy_host := Some ''proxy.local'', proxy_port := 3128,
      proxy_auth_header := auth_line (Some ''Basic dXNlcjpwYXNz'')\<rparr>"
    by (simp add: auth_line_def)
  have m0: "?m0 = ?o\<lparr>proxy_host := Some ''proxy.local'', proxy_port := 3128,
      proxy_auth_header := auth_line None\<rparr>"
    by (simp add: auth_line_def)
  have valid: "(1 :: int) \<le> 3128" "(3128 :: int) \<le> 65535"
    by simp_all
  have heap1: "auth_line (Some ''Basic dXNlcjpwYXNz'') \<noteq> None
      \<longrightarrow> Some (\<lambda>i :: nat. CHR ''?'') \<noteq> None"
    by simp
  have heap0: "auth_line None \<noteq> None \<longrightarrow> (None :: (nat \<Rightarrow> char) option) \<noteq> None"
    by (simp add: auth_line_def)
  note with_auth = connect_request_format [OF valid heap1 m1,
      where dest_host = "''example.com''" and dest_port = 1883 and env = "example_env []"]
  note without = connect_request_format [OF valid heap0 m0,
      where dest_host = "''broker.lan''" and dest_port = 8883 and env = "example_env []"]
  note set1 = with_auth [THEN conjunct1]
  have r1: "format_request ''example.com'' 1883 (proxy_auth_header ?m1) = ?r1"
    using with_auth [THEN conjunct2, THEN conjunct1] by (simp add: fmt_d_1883)
  have fit: "length (format_request ''example.com'' 1883 (proxy_auth_header ?m1)) < request_size"
    unfolding r1 by (simp add: CRLF_def request_size_def)
  have alloc: "malloc_res (example_env []) \<noteq> None"
    by (simp add: example_env_simps)
  have "\<exists>rc es. net__proxy_connect ?m1 ''example.com'' 1883 (example_env []) =
        Some (rc, Call_malloc response_size
                  # Call_write (format_request ''example.com'' 1883 (proxy_auth_header ?m1))
                  # es)"
    by (rule with_auth [THEN conjunct2, THEN conjunct2, THEN conjunct2, THEN conjunct2,
          THEN conjunct2, THEN mp]) (rule conjI [OF alloc fit])
  then have sent: "\<exists>rc es. net__proxy_connect ?m1 ''example.com'' 1883 (example_env []) =
        Some (rc, Call_malloc response_size # Call_write ?r1 # es)"
    unfolding r1 .
  note set0 = without [THEN conjunct1]
  have r0: "format_request ''broker.lan'' 8883 (proxy_auth_header ?m0) =
     ''CONNECT broker.lan:8883 HTTP/1.1'' @ CRLF @ ''Host: broker.lan:8883'' @ CRLF @ CRLF"
    using without [THEN conjunct2, THEN conjunct1] by (simp add: fmt_d_8883)
  from set1 r1 sent set0 r0 show ?thesis
    by (intro conjI)
qed

subsection \<open>C5: a request that does not fit\<close>

text \<open>
  C5. When the formatted request has 1024 bytes or more, the function writes
  nothing to the socket, whatever the environment; and once the response buffer
  is allocated it returns \<open>MOSQ_ERR_PROXY\<close> right after releasing the buffer
  and logging "Proxy CONNECT request too long.".
\<close>

theorem request_too_large:
  assumes big: "request_size \<le> length (format_request dest_host dest_port (proxy_auth_header mosq))"
  shows "(\<exists>rc es. net__proxy_connect mosq dest_host dest_port env = Some (rc, es)
        \<and> rc \<noteq> MOSQ_ERR_SUCCESS \<and> (\<forall>w. Call_write w \<notin> set es))
    \<and> (malloc_res env \<noteq> None \<longrightarrow>
        net__proxy_connect mosq dest_host dest_port env =
          Some (MOSQ_ERR_PROXY,
                [Call_malloc response_size, Call_free,
                 Call_log MOSQ_LOG_ERR ''Proxy CONNECT request too long.'' []]))"
proof -
  let ?req = "format_request dest_host dest_port (proxy_auth_header mosq)"
  have len: "snd (snprintf request_size ?req) \<le> 0
      \<or> request_size \<le> nat (snd (snprintf request_size ?req))"
    using big by (simp add: snprintf_def)
  show ?thesis
  proof (cases "malloc_res env")
    case None
    then show ?thesis
      by (simp add: net__proxy_connect_def mosquitto__malloc_def)
  next
    case (Some junk)
    have "net__proxy_connect mosq dest_host dest_port env =
          Some (MOSQ_ERR_PROXY,
                [Call_malloc response_size, Call_free,
                 Call_log MOSQ_LOG_ERR ''Proxy CONNECT request too long.'' []])"
      using len Some
      by (auto simp: net__proxy_connect_def mosquitto__malloc_def split: prod.splits)
    then show ?thesis by simp
  qed
qed

theorem request_too_large_witness:
  "net__proxy_connect example_mosq (replicate 1024 (CHR ''a'')) 1883 (example_env []) =
     Some (MOSQ_ERR_PROXY,
           [Call_malloc response_size, Call_free,
            Call_log MOSQ_LOG_ERR ''Proxy CONNECT request too long.'' []])"
proof -
  have "request_size \<le> length (format_request (replicate 1024 (CHR ''a'')) 1883
      (proxy_auth_header example_mosq))"
    by (simp add: format_request_def example_mosq_def request_size_def)
  from request_too_large [OF this, of "example_env []"] show ?thesis
    by (simp add: example_env_simps)
qed

subsection \<open>C6: invalid arguments of \<^verbatim>\<open>mosquitto_proxy_set\<close>\<close>

text \<open>
  C6, as the code has it. A call with a \<^verbatim>\<open>NULL\<close> instance, a \<^verbatim>\<open>NULL\<close> host or a
  port outside 1 to 65535 returns \<open>MOSQ_ERR_INVAL\<close> and leaves the configuration
  (host, port and authorization line) as it was.
\<close>

theorem proxy_set_invalid_argument:
  assumes "mosq = None \<or> host = None \<or> port \<le> 0 \<or> port > 65535"
  shows "mosquitto_proxy_set mosq host port auth_value strdup_ok heap = (MOSQ_ERR_INVAL, mosq)"
proof (cases mosq)
  case None
  then show ?thesis by (simp add: mosquitto_proxy_set_def)
next
  case (Some m)
  show ?thesis
  proof (cases host)
    case None
    with Some show ?thesis by (simp add: mosquitto_proxy_set_def)
  next
    case (Some h)
    with assms \<open>mosq = Some m\<close> have "port \<le> 0 \<or> port > 65535" by simp
    with Some \<open>mosq = Some m\<close> show ?thesis
      by (auto simp: mosquitto_proxy_set_def)
  qed
qed

theorem proxy_set_invalid_argument_witness:
  "mosquitto_proxy_set
     (Some \<lparr>sock = 3, proxy_host = Some ''old.proxy'', proxy_port = 3128,
            proxy_auth_header = Some (''Proxy-Authorization: Basic b2xk'' @ CRLF)\<rparr>)
     None 8080 (Some ''Basic dXNlcjpwYXNz'') True (Some (\<lambda>i. CHR ''x''))
   = (MOSQ_ERR_INVAL,
      Some \<lparr>sock = 3, proxy_host = Some ''old.proxy'', proxy_port = 3128,
            proxy_auth_header = Some (''Proxy-Authorization: Basic b2xk'' @ CRLF)\<rparr>)
   \<and> mosquitto_proxy_set
     (Some \<lparr>sock = 3, proxy_host = Some ''old.proxy'', proxy_port = 3128,
            proxy_auth_header = None\<rparr>)
     (Some ''new.proxy'') 65536 None True (Some (\<lambda>i. CHR ''x''))
   = (MOSQ_ERR_INVAL,
      Some \<lparr>sock = 3, proxy_host = Some ''old.proxy'', proxy_port = 3128,
            proxy_auth_header = None\<rparr>)"
  using proxy_set_invalid_argument
      [of "Some \<lparr>sock = 3, proxy_host = Some ''old.proxy'', proxy_port = 3128,
            proxy_auth_header = Some (''Proxy-Authorization: Basic b2xk'' @ CRLF)\<rparr>"
          None 8080 "Some ''Basic dXNlcjpwYXNz''" True "Some (\<lambda>i. CHR ''x'')"]
    proxy_set_invalid_argument
      [of "Some \<lparr>sock = 3, proxy_host = Some ''old.proxy'', proxy_port = 3128,
            proxy_auth_header = None\<rparr>"
          "Some ''new.proxy''" 65536 None True "Some (\<lambda>i. CHR ''x'')"]
  by simp

text \<open>
  C6 as stated fails for the empty string: the code tests the host pointer only,
  so a call with the host \<^verbatim>\<open>""\<close> and a valid port succeeds and replaces the
  earlier configuration.
\<close>

theorem proxy_set_empty_host_counterexample:
  "mosquitto_proxy_set
     (Some \<lparr>sock = 3, proxy_host = Some ''old.proxy'', proxy_port = 3128,
            proxy_auth_header = Some (''Proxy-Authorization: Basic b2xk'' @ CRLF)\<rparr>)
     (Some '''') 8080 None True (Some (\<lambda>i. CHR ''x''))
   = (MOSQ_ERR_SUCCESS,
      Some \<lparr>sock = 3, proxy_host = Some '''', proxy_port = 8080,
            proxy_auth_header = None\<rparr>)"
  by (simp add: mosquitto_proxy_set_def mosquitto__strdup_def)

subsection \<open>C7: allocation failure in \<^verbatim>\<open>mosquitto_proxy_set\<close>\<close>

text \<open>
  C7, as the code has it. When the arguments are valid and an allocation fails
  (the copy of the host, or the authorization line for a non-empty value), the
  call returns \<open>MOSQ_ERR_NOMEM\<close> and leaves both the host and the authorization
  line cleared.
\<close>

theorem proxy_set_out_of_memory:
  assumes port: "1 \<le> port" "port \<le> 65535"
    and fails: "\<not> strdup_ok \<or> (\<exists>av. auth_value = Some av \<and> av \<noteq> [] \<and> heap = None)"
  shows "\<exists>m'. mosquitto_proxy_set (Some m) (Some h) port auth_value strdup_ok heap
        = (MOSQ_ERR_NOMEM, Some m')
      \<and> proxy_host m' = None \<and> proxy_auth_header m' = None \<and> sock m' = sock m"
proof (cases strdup_ok)
  case False
  with port show ?thesis
    by (simp add: mosquitto_proxy_set_def mosquitto__strdup_def Let_def)
next
  case True
  with fails obtain av where av: "auth_value = Some av" "av \<noteq> []" "heap = None"
    by auto
  with True port show ?thesis
    by (simp add: mosquitto_proxy_set_def mosquitto__strdup_def mosquitto__malloc_def Let_def)
qed

theorem proxy_set_out_of_memory_witness:
  "(\<exists>m'. mosquitto_proxy_set
       (Some \<lparr>sock = 3, proxy_host = Some ''old.proxy'', proxy_port = 3128,
              proxy_auth_header = Some (''Proxy-Authorization: Basic b2xk'' @ CRLF)\<rparr>)
       (Some ''new.proxy'') 9090 None False (Some (\<lambda>i. CHR ''x''))
        = (MOSQ_ERR_NOMEM, Some m')
      \<and> proxy_host m' = None \<and> proxy_auth_header m' = None \<and> sock m' = 3)
   \<and> (\<exists>m'. mosquitto_proxy_set
       (Some \<lparr>sock = 3, proxy_host = Some ''old.proxy'', proxy_port = 3128,
              proxy_auth_header = Some (''Proxy-Authorization: Basic b2xk'' @ CRLF)\<rparr>)
       (Some ''new.proxy'') 9090 (Some ''Basic dXNlcjpwYXNz'') True None
        = (MOSQ_ERR_NOMEM, Some m')
      \<and> proxy_host m' = None \<and> proxy_auth_header m' = None \<and> sock m' = 3)"
  using proxy_set_out_of_memory
    [of 9090 False None "Some (\<lambda>i. CHR ''x'')"
        "\<lparr>sock = 3, proxy_host = Some ''old.proxy'', proxy_port = 3128,
              proxy_auth_header = Some (''Proxy-Authorization: Basic b2xk'' @ CRLF)\<rparr>"
        "''new.proxy''"]
    proxy_set_out_of_memory
    [of 9090 True "Some ''Basic dXNlcjpwYXNz''" None
        "\<lparr>sock = 3, proxy_host = Some ''old.proxy'', proxy_port = 3128,
              proxy_auth_header = Some (''Proxy-Authorization: Basic b2xk'' @ CRLF)\<rparr>"
        "''new.proxy''"]
  by simp

text \<open>
  C7 as stated fails: when the authorization line cannot be allocated, the new
  port is already stored and stays, next to the cleared host.
\<close>

theorem proxy_set_out_of_memory_counterexample:
  "mosquitto_proxy_set
     (Some \<lparr>sock = 3, proxy_host = Some ''old.proxy'', proxy_port = 3128,
            proxy_auth_header = Some (''Proxy-Authorization: Basic b2xk'' @ CRLF)\<rparr>)
     (Some ''new.proxy'') 9090 (Some ''Basic dXNlcjpwYXNz'') True None
   = (MOSQ_ERR_NOMEM,
      Some \<lparr>sock = 3, proxy_host = None, proxy_port = 9090, proxy_auth_header = None\<rparr>)"
  by (simp add: mosquitto_proxy_set_def mosquitto__strdup_def mosquitto__malloc_def Let_def)

subsection \<open>C8: the timeout of each wait\<close>

text \<open>
  C8. In every run, each call of \<^verbatim>\<open>poll\<close> is given the configured timeout of
  10000 ms, whatever the iteration and however long the earlier waits took.
  And when the run ends with "Proxy connect timed out.", then the last wait,
  the one of some iteration \<open>j\<close>, returned 0 (no event within its timeout),
  while every earlier wait had reported an event.
\<close>

theorem poll_timeout_afresh:
  "connect_timeout_ms = 10000
   \<and> (\<exists>rc es. net__proxy_connect mosq dest_host dest_port env = Some (rc, es)
        \<and> (\<forall>t. Call_poll t \<in> set es \<longrightarrow> t = connect_timeout_ms)
        \<and> (Call_log MOSQ_LOG_ERR ''Proxy connect timed out.'' [] \<in> set es \<longrightarrow>
             (\<exists>j. poll_ret (steps env j) = 0 \<and> (\<forall>i<j. 0 < poll_ret (steps env i))
                \<and> length (filter is_poll es) = Suc j)))"
proof -
  from connect_shape [of mosq dest_host dest_port env] obtain rc pre ios tail
    where run: "net__proxy_connect mosq dest_host dest_port env = Some (rc, pre @ ios @ tail)"
      and pre: "pre = [Call_malloc response_size]
        \<or> pre = [Call_malloc response_size,
                  Call_write (format_request dest_host dest_port (proxy_auth_header mosq))]"
      and ios: "list_all loop_call_ok ios"
      and tail: "rc = MOSQ_ERR_NOMEM \<and> tail = []
        \<or> (\<exists>fmt args. rc = MOSQ_ERR_PROXY \<and> tail = [Call_free, Call_log MOSQ_LOG_ERR fmt args]
              \<and> fmt \<in> set failure_formats)
        \<or> (\<exists>line. rc = MOSQ_ERR_PROXY
              \<and> tail = [Call_log MOSQ_LOG_ERR ''Proxy CONNECT failed: %s'' [line], Call_free])
        \<or> rc = MOSQ_ERR_SUCCESS
            \<and> tail = [Call_log MOSQ_LOG_INFO
                         ''Successfully connected to MQTT broker via proxy.'' [],
                       Call_free]"
      and cause: "Call_log MOSQ_LOG_ERR ''Proxy connect timed out.'' [] \<in> set tail \<longrightarrow>
          (\<exists>j. poll_ret (steps env j) = 0 \<and> (\<forall>i<j. 0 < poll_ret (steps env i))
             \<and> length (filter is_poll ios) = Suc j)"
    by blast
  have in_ios: "c \<in> set ios \<Longrightarrow> loop_call_ok c" for c
    using ios by (simp add: list_all_iff)
  have no_poll: "filter is_poll pre = []" "filter is_poll tail = []"
    using pre tail by auto
  have polls: "t = connect_timeout_ms" if "Call_poll t \<in> set (pre @ ios @ tail)" for t
  proof -
    from that pre tail have "Call_poll t \<in> set ios"
      by auto
    from in_ios [OF this] show ?thesis by simp
  qed
  have timed_out: "\<exists>j. poll_ret (steps env j) = 0 \<and> (\<forall>i<j. 0 < poll_ret (steps env i))
         \<and> length (filter is_poll (pre @ ios @ tail)) = Suc j"
    if "Call_log MOSQ_LOG_ERR ''Proxy connect timed out.'' [] \<in> set (pre @ ios @ tail)"
  proof -
    have "Call_log MOSQ_LOG_ERR ''Proxy connect timed out.'' [] \<notin> set ios"
      using in_ios [of "Call_log MOSQ_LOG_ERR ''Proxy connect timed out.'' []"] by auto
    with that pre have "Call_log MOSQ_LOG_ERR ''Proxy connect timed out.'' [] \<in> set tail"
      by auto
    with cause no_poll show ?thesis
      by simp
  qed
  show ?thesis
    using run polls timed_out by (simp add: connect_timeout_ms_def)
qed

theorem poll_timeout_afresh_witness:
  "net__proxy_connect example_mosq ''example.com'' 1883
     (example_env [ready_with ''HTTP/1.1 20'', ready_with ''0 OK'']) =
   Some (MOSQ_ERR_PROXY,
         [Call_malloc 2048, Call_write example_request,
          Call_poll 10000, Call_read 0 2047, Call_poll 10000, Call_read 11 2036,
          Call_poll 10000, Call_free,
          Call_log MOSQ_LOG_ERR ''Proxy connect timed out.'' []])
   \<and> (\<exists>j. poll_ret (steps (example_env [ready_with ''HTTP/1.1 20'', ready_with ''0 OK'']) j) = 0
        \<and> (\<forall>i<j. 0 < poll_ret
              (steps (example_env [ready_with ''HTTP/1.1 20'', ready_with ''0 OK'']) i))
        \<and> Suc j = 3)"
proof -
  let ?env = "example_env [ready_with ''HTTP/1.1 20'', ready_with ''0 OK'']"
  let ?es = "[Call_malloc 2048, Call_write example_request,
          Call_poll 10000, Call_read 0 2047, Call_poll 10000, Call_read 11 2036,
          Call_poll 10000, Call_free,
          Call_log MOSQ_LOG_ERR ''Proxy connect timed out.'' []]"
  note run = example_trickle_then_silence
  from poll_timeout_afresh [of example_mosq "''example.com''" 1883 ?env]
  have "Call_log MOSQ_LOG_ERR ''Proxy connect timed out.'' [] \<in> set ?es \<longrightarrow>
      (\<exists>j. poll_ret (steps ?env j) = 0 \<and> (\<forall>i<j. 0 < poll_ret (steps ?env i))
         \<and> length (filter is_poll ?es) = Suc j)"
    unfolding run by simp
  then have "\<exists>j. poll_ret (steps ?env j) = 0 \<and> (\<forall>i<j. 0 < poll_ret (steps ?env i))
         \<and> Suc j = 3"
    by (auto simp: numeral_2_eq_2 numeral_3_eq_3)
  with run show ?thesis
    by simp
qed

subsection \<open>C9: how failures are reported\<close>

text \<open>
  C9, as the code has it. Each cause of failure has its return value and its
  one error message. When the response buffer cannot be allocated the function
  returns \<open>MOSQ_ERR_NOMEM\<close> and logs nothing. Every other failure returns the one
  value \<open>MOSQ_ERR_PROXY\<close> after releasing the buffer: a request that does not
  fit ("Proxy CONNECT request too long."), a write that does not send all of it
  ("Error writing to proxy: %s."), and, once the fragments \<open>frags\<close> have been
  read, a wait that fails ("Proxy poll error: %s."), a wait that sees no event
  ("Proxy connect timed out."), an event without \<^verbatim>\<open>POLLIN\<close> ("Proxy socket error
  during connect."), a read that finds the connection closed ("Proxy connection
  closed prematurely."), a read that fails ("Error reading from proxy: %s."), a
  full buffer in which \<^verbatim>\<open>strstr\<close> finds no terminator ("Proxy response headers too
  long or incomplete."), and a response whose status prefix is not a 200 one
  ("Proxy CONNECT failed: %s" with the status line). The messages are pairwise
  different, and every run whatsoever ends with \<open>MOSQ_ERR_SUCCESS\<close> and the one
  information message, with \<open>MOSQ_ERR_NOMEM\<close> and no message, or with
  \<open>MOSQ_ERR_PROXY\<close> and exactly one of these error messages: the kind of a
  \<open>MOSQ_ERR_PROXY\<close> failure is told by the log message only.
\<close>

theorem failures_return_one_code:
  "let req = format_request dest_host dest_port (proxy_auth_header mosq);
       run = net__proxy_connect mosq dest_host dest_port env;
       pre = [Call_malloc response_size, Call_write req];
       started = (malloc_res env \<noteq> None \<and> length req < request_size
                  \<and> write_ret env = int (length req));
       going = (started \<and> delivers (steps env) 0 frags
                \<and> length (concat frags) < response_size - 1
                \<and> (\<forall>i. 0 < i \<and> i \<le> length frags
                       \<longrightarrow> \<not> has_terminator (concat (take i frags))));
       ended = (started \<and> frags \<noteq> [] \<and> delivers (steps env) 0 frags
                \<and> length (concat (butlast frags)) < response_size - 1
                \<and> (\<forall>i. 0 < i \<and> i < length frags
                       \<longrightarrow> \<not> has_terminator (concat (take i frags))));
       st = steps env (length frags);
       cursor = length (concat frags);
       kept = take (response_size - 1) (concat frags)
   in (malloc_res env = None \<longrightarrow>
         run = Some (MOSQ_ERR_NOMEM, [Call_malloc response_size]))
    \<and> (malloc_res env \<noteq> None \<and> request_size \<le> length req \<longrightarrow>
         run = Some (MOSQ_ERR_PROXY,
                     [Call_malloc response_size, Call_free,
                      Call_log MOSQ_LOG_ERR ''Proxy CONNECT request too long.'' []]))
    \<and> (malloc_res env \<noteq> None \<and> length req < request_size
          \<and> write_ret env \<noteq> int (length req) \<longrightarrow>
         run = Some (MOSQ_ERR_PROXY,
                     pre @ [Call_free,
                            Call_log MOSQ_LOG_ERR ''Error writing to proxy: %s.''
                              [errno_text env]]))
    \<and> (going \<and> poll_ret st < 0 \<longrightarrow>
         run = Some (MOSQ_ERR_PROXY,
                     pre @ reads_trace 0 frags
                     @ [Call_poll connect_timeout_ms, Call_free,
                        Call_log MOSQ_LOG_ERR ''Proxy poll error: %s.'' [errno_text env]]))
    \<and> (going \<and> poll_ret st = 0 \<longrightarrow>
         run = Some (MOSQ_ERR_PROXY,
                     pre @ reads_trace 0 frags
                     @ [Call_poll connect_timeout_ms, Call_free,
                        Call_log MOSQ_LOG_ERR ''Proxy connect timed out.'' []]))
    \<and> (going \<and> 0 < poll_ret st \<and> poll_revents st AND POLLIN = 0 \<longrightarrow>
         run = Some (MOSQ_ERR_PROXY,
                     pre @ reads_trace 0 frags
                     @ [Call_poll connect_timeout_ms, Call_free,
                        Call_log MOSQ_LOG_ERR ''Proxy socket error during connect.'' []]))
    \<and> (going \<and> 0 < poll_ret st \<and> poll_revents st AND POLLIN \<noteq> 0
          \<and> read_avail st = Some [] \<longrightarrow>
         run = Some (MOSQ_ERR_PROXY,
                     pre @ reads_trace 0 frags
                     @ [Call_poll connect_timeout_ms,
                        Call_read cursor (response_size - 1 - cursor), Call_free,
                        Call_log MOSQ_LOG_ERR ''Proxy connection closed prematurely.'' []]))
    \<and> (going \<and> 0 < poll_ret st \<and> poll_revents st AND POLLIN \<noteq> 0
          \<and> read_avail st = None \<longrightarrow>
         run = Some (MOSQ_ERR_PROXY,
                     pre @ reads_trace 0 frags
                     @ [Call_poll connect_timeout_ms,
                        Call_read cursor (response_size - 1 - cursor), Call_free,
                        Call_log MOSQ_LOG_ERR ''Error reading from proxy: %s.''
                          [errno_text env]]))
    \<and> (ended \<and> response_size - 1 \<le> cursor \<and> \<not> has_terminator kept \<longrightarrow>
         run = Some (MOSQ_ERR_PROXY,
                     pre @ reads_trace 0 frags
                     @ [Call_free,
                        Call_log MOSQ_LOG_ERR
                          ''Proxy response headers too long or incomplete.'' []]))
    \<and> (ended \<and> has_terminator kept
          \<and> take 12 kept \<noteq> ''HTTP/1.1 200'' \<and> take 12 kept \<noteq> ''HTTP/1.0 200'' \<longrightarrow>
         (\<exists>i. strstr (c_str kept) CRLF = Some i
            \<and> run = Some (MOSQ_ERR_PROXY,
                          pre @ reads_trace 0 frags
                          @ [Call_log MOSQ_LOG_ERR ''Proxy CONNECT failed: %s''
                               [take i (c_str kept)],
                             Call_free])))
    \<and> (\<exists>rc es. run = Some (rc, es)
          \<and> (rc = MOSQ_ERR_SUCCESS
                \<and> logged es =
                    [(MOSQ_LOG_INFO, ''Successfully connected to MQTT broker via proxy.'')]
             \<or> rc = MOSQ_ERR_NOMEM \<and> logged es = []
             \<or> rc = MOSQ_ERR_PROXY
                \<and> (\<exists>fmt. fmt \<in> set failure_formats \<and> logged es = [(MOSQ_LOG_ERR, fmt)])))
    \<and> distinct failure_formats"
proof -
  let ?req = "format_request dest_host dest_port (proxy_auth_header mosq)"
  let ?run = "net__proxy_connect mosq dest_host dest_port env"
  let ?pre = "[Call_malloc response_size, Call_write ?req]"
  let ?st = "steps env (length frags)"
  let ?kept = "take (response_size - 1) (concat frags)"
  have no_memory: "?run = Some (MOSQ_ERR_NOMEM, [Call_malloc response_size])"
    if "malloc_res env = None"
    using that by (rule connect_no_memory)
  have too_long: "?run = Some (MOSQ_ERR_PROXY,
        [Call_malloc response_size, Call_free,
         Call_log MOSQ_LOG_ERR ''Proxy CONNECT request too long.'' []])"
    if "malloc_res env \<noteq> None \<and> request_size \<le> length ?req"
    using that connect_too_long [of env _ dest_host dest_port mosq] by auto
  have write_fails: "?run = Some (MOSQ_ERR_PROXY,
        ?pre @ [Call_free, Call_log MOSQ_LOG_ERR ''Error writing to proxy: %s.''
                  [errno_text env]])"
    if "malloc_res env \<noteq> None \<and> length ?req < request_size
        \<and> write_ret env \<noteq> int (length ?req)"
    using that connect_write_fails [of env _ dest_host dest_port mosq] by auto
  have in_loop: "?run = Some (MOSQ_ERR_PROXY, ?pre @ reads_trace 0 frags @ tail)"
    if started: "malloc_res env \<noteq> None" "length ?req < request_size"
        "write_ret env = int (length ?req)"
      and frags: "delivers (steps env) 0 frags"
      and room: "length (concat frags) < response_size - 1"
      and incomplete: "\<forall>i. 0 < i \<and> i \<le> length frags
          \<longrightarrow> \<not> has_terminator (concat (take i frags))"
      and body: "\<And>s. total_read s = length (concat frags)
          \<Longrightarrow> loop_body (errno_text env) ?st s = Return MOSQ_ERR_PROXY (emit s tail)"
    for tail
  proof -
    from started(1) obtain junk where alloc: "malloc_res env = Some junk"
      by auto
    show ?thesis
    proof (rule connect_returns_holding [OF alloc started(2,3) frags room])
      show "\<not> has_terminator (concat (take i frags))" if "0 < i" "i \<le> length frags" for i
        using incomplete that by simp
      show "loop_body (errno_text env) ?st s = Return MOSQ_ERR_PROXY (emit s tail)"
        if "total_read s = length (concat frags)" for s
        using that by (rule body)
    qed
  qed
  have poll_error: "?run = Some (MOSQ_ERR_PROXY, ?pre @ reads_trace 0 frags
        @ [Call_poll connect_timeout_ms, Call_free,
           Call_log MOSQ_LOG_ERR ''Proxy poll error: %s.'' [errno_text env]])"
    if "malloc_res env \<noteq> None" "length ?req < request_size"
        "write_ret env = int (length ?req)" "delivers (steps env) 0 frags"
        "length (concat frags) < response_size - 1"
        "\<forall>i. 0 < i \<and> i \<le> length frags \<longrightarrow> \<not> has_terminator (concat (take i frags))"
        "poll_ret ?st < 0"
    using that(1-6) by (rule in_loop) (rule loop_body_poll_error [OF that(7)])
  have timeout: "?run = Some (MOSQ_ERR_PROXY, ?pre @ reads_trace 0 frags
        @ [Call_poll connect_timeout_ms, Call_free,
           Call_log MOSQ_LOG_ERR ''Proxy connect timed out.'' []])"
    if "malloc_res env \<noteq> None" "length ?req < request_size"
        "write_ret env = int (length ?req)" "delivers (steps env) 0 frags"
        "length (concat frags) < response_size - 1"
        "\<forall>i. 0 < i \<and> i \<le> length frags \<longrightarrow> \<not> has_terminator (concat (take i frags))"
        "poll_ret ?st = 0"
    using that(1-6) by (rule in_loop) (rule loop_body_timeout [OF that(7)])
  have no_in: "?run = Some (MOSQ_ERR_PROXY, ?pre @ reads_trace 0 frags
        @ [Call_poll connect_timeout_ms, Call_free,
           Call_log MOSQ_LOG_ERR ''Proxy socket error during connect.'' []])"
    if "malloc_res env \<noteq> None" "length ?req < request_size"
        "write_ret env = int (length ?req)" "delivers (steps env) 0 frags"
        "length (concat frags) < response_size - 1"
        "\<forall>i. 0 < i \<and> i \<le> length frags \<longrightarrow> \<not> has_terminator (concat (take i frags))"
        "0 < poll_ret ?st" "poll_revents ?st AND POLLIN = 0"
    using that(1-6) by (rule in_loop) (rule loop_body_no_POLLIN [OF that(7,8)])
  have closed: "?run = Some (MOSQ_ERR_PROXY, ?pre @ reads_trace 0 frags
        @ [Call_poll connect_timeout_ms,
           Call_read (length (concat frags)) (response_size - 1 - length (concat frags)),
           Call_free, Call_log MOSQ_LOG_ERR ''Proxy connection closed prematurely.'' []])"
    if "malloc_res env \<noteq> None" "length ?req < request_size"
        "write_ret env = int (length ?req)" "delivers (steps env) 0 frags"
        "length (concat frags) < response_size - 1"
        "\<forall>i. 0 < i \<and> i \<le> length frags \<longrightarrow> \<not> has_terminator (concat (take i frags))"
        "0 < poll_ret ?st" "poll_revents ?st AND POLLIN \<noteq> 0" "read_avail ?st = Some []"
    using that(1-6)
  proof (rule in_loop)
    fix s :: hs_state
    assume "total_read s = length (concat frags)"
    with loop_body_closed [OF that(7,8,9), of "errno_text env" s]
    show "loop_body (errno_text env) ?st s = Return MOSQ_ERR_PROXY
        (emit s [Call_poll connect_timeout_ms,
           Call_read (length (concat frags)) (response_size - 1 - length (concat frags)),
           Call_free, Call_log MOSQ_LOG_ERR ''Proxy connection closed prematurely.'' []])"
      by simp
  qed
  have read_error: "?run = Some (MOSQ_ERR_PROXY, ?pre @ reads_trace 0 frags
        @ [Call_poll connect_timeout_ms,
           Call_read (length (concat frags)) (response_size - 1 - length (concat frags)),
           Call_free, Call_log MOSQ_LOG_ERR ''Error reading from proxy: %s.'' [errno_text env]])"
    if "malloc_res env \<noteq> None" "length ?req < request_size"
        "write_ret env = int (length ?req)" "delivers (steps env) 0 frags"
        "length (concat frags) < response_size - 1"
        "\<forall>i. 0 < i \<and> i \<le> length frags \<longrightarrow> \<not> has_terminator (concat (take i frags))"
        "0 < poll_ret ?st" "poll_revents ?st AND POLLIN \<noteq> 0" "read_avail ?st = None"
    using that(1-6)
  proof (rule in_loop)
    fix s :: hs_state
    assume "total_read s = length (concat frags)"
    with loop_body_read_error [OF that(7,8,9), of "errno_text env" s]
    show "loop_body (errno_text env) ?st s = Return MOSQ_ERR_PROXY
        (emit s [Call_poll connect_timeout_ms,
           Call_read (length (concat frags)) (response_size - 1 - length (concat frags)),
           Call_free, Call_log MOSQ_LOG_ERR ''Error reading from proxy: %s.'' [errno_text env]])"
      by simp
  qed
  have too_large: "?run = Some (MOSQ_ERR_PROXY, ?pre @ reads_trace 0 frags
        @ [Call_free,
           Call_log MOSQ_LOG_ERR ''Proxy response headers too long or incomplete.'' []])"
    if "malloc_res env \<noteq> None" "length ?req < request_size"
        "write_ret env = int (length ?req)" "frags \<noteq> []" "delivers (steps env) 0 frags"
        "length (concat (butlast frags)) < response_size - 1"
        "\<forall>i. 0 < i \<and> i < length frags \<longrightarrow> \<not> has_terminator (concat (take i frags))"
        "response_size - 1 \<le> length (concat frags)" "\<not> has_terminator ?kept"
  proof -
    from that(1) obtain junk where alloc: "malloc_res env = Some junk"
      by auto
    have "\<not> has_terminator (concat (take i frags))" if "0 < i" "i < length frags" for i
      using \<open>\<forall>i. 0 < i \<and> i < length frags \<longrightarrow> \<not> has_terminator (concat (take i frags))\<close>
        that by simp
    from connect_too_large_after [OF alloc that(2-6) this that(8,9)] show ?thesis .
  qed
  have rejected: "\<exists>i. strstr (c_str ?kept) CRLF = Some i
      \<and> ?run = Some (MOSQ_ERR_PROXY, ?pre @ reads_trace 0 frags
          @ [Call_log MOSQ_LOG_ERR ''Proxy CONNECT failed: %s'' [take i (c_str ?kept)],
             Call_free])"
    if "malloc_res env \<noteq> None" "length ?req < request_size"
        "write_ret env = int (length ?req)" "frags \<noteq> []" "delivers (steps env) 0 frags"
        "length (concat (butlast frags)) < response_size - 1"
        "\<forall>i. 0 < i \<and> i < length frags \<longrightarrow> \<not> has_terminator (concat (take i frags))"
        "has_terminator ?kept"
        "take 12 ?kept \<noteq> ''HTTP/1.1 200''" "take 12 ?kept \<noteq> ''HTTP/1.0 200''"
  proof -
    from that(1) obtain junk where alloc: "malloc_res env = Some junk"
      by auto
    have "\<not> has_terminator (concat (take i frags))" if "0 < i" "i < length frags" for i
      using \<open>\<forall>i. 0 < i \<and> i < length frags \<longrightarrow> \<not> has_terminator (concat (take i frags))\<close>
        that by simp
    from connect_rejected_after [OF alloc that(2-6) this that(8,9,10)] show ?thesis .
  qed
  have every: "\<exists>rc es. ?run = Some (rc, es)
      \<and> (rc = MOSQ_ERR_SUCCESS
            \<and> logged es =
                [(MOSQ_LOG_INFO, ''Successfully connected to MQTT broker via proxy.'')]
         \<or> rc = MOSQ_ERR_NOMEM \<and> logged es = []
         \<or> rc = MOSQ_ERR_PROXY
            \<and> (\<exists>fmt. fmt \<in> set failure_formats \<and> logged es = [(MOSQ_LOG_ERR, fmt)]))"
  proof -
    from connect_shape [of mosq dest_host dest_port env] obtain rc pre ios tail
      where run: "?run = Some (rc, pre @ ios @ tail)"
        and pre: "pre = [Call_malloc response_size] \<or> pre = ?pre"
        and ios: "list_all loop_call_ok ios"
        and tail: "rc = MOSQ_ERR_NOMEM \<and> tail = []
          \<or> (\<exists>fmt args. rc = MOSQ_ERR_PROXY
                \<and> tail = [Call_free, Call_log MOSQ_LOG_ERR fmt args]
                \<and> fmt \<in> set failure_formats)
          \<or> (\<exists>line. rc = MOSQ_ERR_PROXY
                \<and> tail = [Call_log MOSQ_LOG_ERR ''Proxy CONNECT failed: %s'' [line], Call_free])
          \<or> rc = MOSQ_ERR_SUCCESS
              \<and> tail = [Call_log MOSQ_LOG_INFO
                           ''Successfully connected to MQTT broker via proxy.'' [],
                         Call_free]"
      by blast
    have "logged pre = []"
      using pre by auto
    then have logs: "logged (pre @ ios @ tail) = logged tail"
      using loop_call_ok_not_logged [OF ios] by (simp add: logged_append)
    have failed: "''Proxy CONNECT failed: %s'' \<in> set failure_formats"
      by (simp add: failure_formats_def)
    from tail have "rc = MOSQ_ERR_SUCCESS
            \<and> logged tail =
                [(MOSQ_LOG_INFO, ''Successfully connected to MQTT broker via proxy.'')]
         \<or> rc = MOSQ_ERR_NOMEM \<and> logged tail = []
         \<or> rc = MOSQ_ERR_PROXY
            \<and> (\<exists>fmt. fmt \<in> set failure_formats \<and> logged tail = [(MOSQ_LOG_ERR, fmt)])"
      using failed by auto
    with run logs show ?thesis
      by simp
  qed
  show ?thesis
    unfolding Let_def
    apply (intro conjI impI)
    subgoal by (rule no_memory)
    subgoal by (rule too_long)
    subgoal by (rule write_fails)
    subgoal by (elim conjE, rule poll_error; assumption)
    subgoal by (elim conjE, rule timeout; assumption)
    subgoal by (elim conjE, rule no_in; assumption)
    subgoal by (elim conjE, rule closed; assumption)
    subgoal by (elim conjE, rule read_error; assumption)
    subgoal by (elim conjE, rule too_large; assumption)
    subgoal by (elim conjE, rule rejected; assumption)
    subgoal by (rule every)
    subgoal by (rule distinct_failure_formats)
    done
qed

theorem failures_return_one_code_witness:
  "net__proxy_connect example_mosq ''example.com'' 1883
     \<lparr>malloc_res = None, write_ret = 61, errno_text = ''ENOMEM'',
      steps = (\<lambda>k. no_event)\<rparr> =
   Some (MOSQ_ERR_NOMEM, [Call_malloc 2048])
   \<and> net__proxy_connect example_mosq (replicate 2000 (CHR ''h'')) 1883 (example_env []) =
   Some (MOSQ_ERR_PROXY,
         [Call_malloc 2048, Call_free,
          Call_log MOSQ_LOG_ERR ''Proxy CONNECT request too long.'' []])
   \<and> net__proxy_connect example_mosq ''example.com'' 1883
     \<lparr>malloc_res = Some (\<lambda>i. CHR ''?''), write_ret = 10, errno_text = ''EPIPE'',
      steps = (\<lambda>k. no_event)\<rparr> =
   Some (MOSQ_ERR_PROXY,
         [Call_malloc 2048, Call_write example_request, Call_free,
          Call_log MOSQ_LOG_ERR ''Error writing to proxy: %s.'' [''EPIPE'']])
   \<and> net__proxy_connect example_mosq ''example.com'' 1883
     (example_env [ready_with ''HTTP/1.1 20'',
                   \<lparr>poll_ret = - 1, poll_revents = 0, read_avail = None\<rparr>]) =
   Some (MOSQ_ERR_PROXY,
         [Call_malloc 2048, Call_write example_request, Call_poll 10000, Call_read 0 2047,
          Call_poll 10000, Call_free,
          Call_log MOSQ_LOG_ERR ''Proxy poll error: %s.'' [''EIO'']])
   \<and> net__proxy_connect example_mosq ''example.com'' 1883
     (example_env [ready_with ''HTTP/1.1 20'',
                   \<lparr>poll_ret = 0, poll_revents = 0, read_avail = Some ''0 OK''\<rparr>]) =
   Some (MOSQ_ERR_PROXY,
         [Call_malloc 2048, Call_write example_request, Call_poll 10000, Call_read 0 2047,
          Call_poll 10000, Call_free,
          Call_log MOSQ_LOG_ERR ''Proxy connect timed out.'' []])
   \<and> net__proxy_connect example_mosq ''example.com'' 1883
     (example_env [ready_with ''HTTP/1.1 20'',
                   \<lparr>poll_ret = 1, poll_revents = 8, read_avail = Some ''0 OK''\<rparr>]) =
   Some (MOSQ_ERR_PROXY,
         [Call_malloc 2048, Call_write example_request, Call_poll 10000, Call_read 0 2047,
          Call_poll 10000, Call_free,
          Call_log MOSQ_LOG_ERR ''Proxy socket error during connect.'' []])
   \<and> net__proxy_connect example_mosq ''example.com'' 1883
     (example_env [ready_with ''HTTP/1.1 20'', ready_with []]) =
   Some (MOSQ_ERR_PROXY,
         [Call_malloc 2048, Call_write example_request, Call_poll 10000, Call_read 0 2047,
          Call_poll 10000, Call_read 11 2036, Call_free,
          Call_log MOSQ_LOG_ERR ''Proxy connection closed prematurely.'' []])
   \<and> net__proxy_connect example_mosq ''example.com'' 1883
     (example_env [ready_with ''HTTP/1.1 20'',
                   \<lparr>poll_ret = 1, poll_revents = POLLIN, read_avail = None\<rparr>]) =
   Some (MOSQ_ERR_PROXY,
         [Call_malloc 2048, Call_write example_request, Call_poll 10000, Call_read 0 2047,
          Call_poll 10000, Call_read 11 2036, Call_free,
          Call_log MOSQ_LOG_ERR ''Error reading from proxy: %s.'' [''EIO'']])
   \<and> net__proxy_connect example_mosq ''example.com'' 1883
     (example_env [ready_with (replicate 3000 (CHR ''a''))]) =
   Some (MOSQ_ERR_PROXY,
         [Call_malloc 2048, Call_write example_request, Call_poll 10000, Call_read 0 2047,
          Call_free,
          Call_log MOSQ_LOG_ERR ''Proxy response headers too long or incomplete.'' []])
   \<and> net__proxy_connect example_mosq ''example.com'' 1883
     (example_env [ready_with (''HTTP/1.1 502 Bad Gateway'' @ CRLF @ CRLF)]) =
   Some (MOSQ_ERR_PROXY,
         [Call_malloc 2048, Call_write example_request, Call_poll 10000, Call_read 0 2047,
          Call_log MOSQ_LOG_ERR ''Proxy CONNECT failed: %s'' [''HTTP/1.1 502 Bad Gateway''],
          Call_free])"
proof -
  let ?req = "format_request ''example.com'' 1883 (proxy_auth_header example_mosq)"
  note at = failures_return_one_code [where mosq = example_mosq and dest_port = 1883,
      unfolded Let_def]
  note c2 = conjunct2 [THEN conjunct1]
  note c3 = conjunct2 [THEN conjunct2, THEN conjunct1]
  note c4 = conjunct2 [THEN conjunct2, THEN conjunct2, THEN conjunct1]
  note c5 = conjunct2 [THEN conjunct2, THEN conjunct2, THEN conjunct2, THEN conjunct1]
  note c6 = conjunct2 [THEN conjunct2, THEN conjunct2, THEN conjunct2, THEN c2]
  note c7 = conjunct2 [THEN conjunct2, THEN conjunct2, THEN conjunct2, THEN c3]
  note c8 = conjunct2 [THEN conjunct2, THEN conjunct2, THEN conjunct2, THEN c4]
  note c9 = conjunct2 [THEN conjunct2, THEN conjunct2, THEN conjunct2, THEN c5]
  note c10 = conjunct2 [THEN conjunct2, THEN conjunct2, THEN conjunct2, THEN c6]
  have fits: "length ?req < request_size"
    by (rule example_pre)
  have started: "malloc_res (example_env a) \<noteq> None \<and> length ?req < request_size
      \<and> write_ret (example_env a) = int (length ?req)" for a
    using example_pre(1) [of a] example_pre(2) example_pre(3) [of a] by simp

  let ?e1 = "\<lparr>malloc_res = None, write_ret = 61, errno_text = ''ENOMEM'',
      steps = (\<lambda>k. no_event)\<rparr>"
  have w1: "net__proxy_connect example_mosq ''example.com'' 1883 ?e1 =
      Some (MOSQ_ERR_NOMEM, [Call_malloc response_size])"
    by (rule at [where dest_host = "''example.com''" and env = ?e1 and frags = "[]",
          THEN conjunct1, THEN mp]) simp

  have w2: "net__proxy_connect example_mosq (replicate 2000 (CHR ''h'')) 1883 (example_env []) =
      Some (MOSQ_ERR_PROXY,
            [Call_malloc response_size, Call_free,
             Call_log MOSQ_LOG_ERR ''Proxy CONNECT request too long.'' []])"
    by (rule at [where dest_host = "replicate 2000 (CHR ''h'')" and env = "example_env []"
            and frags = "[]", THEN c2, THEN mp])
      (simp add: example_env_simps format_request_def example_mosq_def request_size_def)

  let ?e3 = "\<lparr>malloc_res = Some (\<lambda>i. CHR ''?''), write_ret = 10, errno_text = ''EPIPE'',
      steps = (\<lambda>k. no_event)\<rparr>"
  have "malloc_res ?e3 \<noteq> None \<and> length ?req < request_size
      \<and> write_ret ?e3 \<noteq> int (length ?req)"
    using fits by (simp add: example_request_eq example_request_length)
  from at [where dest_host = "''example.com''" and env = ?e3 and frags = "[]",
      THEN c3, THEN mp, OF this]
  have w3: "net__proxy_connect example_mosq ''example.com'' 1883 ?e3 =
      Some (MOSQ_ERR_PROXY,
            [Call_malloc response_size, Call_write example_request, Call_free,
             Call_log MOSQ_LOG_ERR ''Error writing to proxy: %s.'' [''EPIPE'']])"
    by (simp add: example_request_eq)

  let ?F = "[''HTTP/1.1 20'']"
  let ?E = "\<lambda>st. example_env (map ready_with ?F @ [st])"
  have frags: "delivers (steps (?E st)) 0 ?F" for st
    by (simp only: example_delivers) simp
  have room: "length (concat ?F) < response_size - 1"
    by (simp add: response_size_def)
  have inc: "\<forall>i. 0 < i \<and> i \<le> length ?F \<longrightarrow> \<not> has_terminator (concat (take i ?F))"
  proof (intro allI impI)
    fix i :: nat
    assume "0 < i \<and> i \<le> length ?F"
    then have "i = 1" by auto
    then show "\<not> has_terminator (concat (take i ?F))"
      by (simp add: has_terminator_def c_str_def NUL_def terminator_def CRLF_def)
  qed
  have going: "(malloc_res (?E st) \<noteq> None \<and> length ?req < request_size
        \<and> write_ret (?E st) = int (length ?req))
      \<and> delivers (steps (?E st)) 0 ?F \<and> length (concat ?F) < response_size - 1
      \<and> (\<forall>i. 0 < i \<and> i \<le> length ?F \<longrightarrow> \<not> has_terminator (concat (take i ?F)))" for st
    using started [of "map ready_with ?F @ [st]"] frags [of st] room inc
    by (intro conjI) simp_all
  have last: "steps (?E st) (length ?F) = st" for st
    by (simp add: example_env_def)
  note loop = at [where dest_host = "''example.com''" and frags = ?F]

  let ?s4 = "\<lparr>poll_ret = - 1, poll_revents = 0, read_avail = None\<rparr>"
  have "poll_ret (steps (?E ?s4) (length ?F)) < 0"
    unfolding last by simp
  from loop [where env = "?E ?s4", THEN c4, THEN mp, OF conjI [OF going this]]
  have w4: "net__proxy_connect example_mosq ''example.com'' 1883
      (example_env [ready_with ''HTTP/1.1 20'', ?s4]) =
      Some (MOSQ_ERR_PROXY,
         [Call_malloc response_size, Call_write example_request,
          Call_poll connect_timeout_ms, Call_read 0 (response_size - 1),
          Call_poll connect_timeout_ms, Call_free,
          Call_log MOSQ_LOG_ERR ''Proxy poll error: %s.'' [''EIO'']])"
    by (simp add: example_request_eq example_env_simps)

  let ?s5 = "\<lparr>poll_ret = 0, poll_revents = 0, read_avail = Some ''0 OK''\<rparr>"
  have "poll_ret (steps (?E ?s5) (length ?F)) = 0"
    unfolding last by simp
  from loop [where env = "?E ?s5", THEN c5, THEN mp, OF conjI [OF going this]]
  have w5: "net__proxy_connect example_mosq ''example.com'' 1883
      (example_env [ready_with ''HTTP/1.1 20'', ?s5]) =
      Some (MOSQ_ERR_PROXY,
         [Call_malloc response_size, Call_write example_request,
          Call_poll connect_timeout_ms, Call_read 0 (response_size - 1),
          Call_poll connect_timeout_ms, Call_free,
          Call_log MOSQ_LOG_ERR ''Proxy connect timed out.'' []])"
    by (simp add: example_request_eq example_env_simps)

  let ?s6 = "\<lparr>poll_ret = 1, poll_revents = 8, read_avail = Some ''0 OK''\<rparr>"
  have "0 < poll_ret (steps (?E ?s6) (length ?F))
      \<and> poll_revents (steps (?E ?s6) (length ?F)) AND POLLIN = 0"
    unfolding last by (simp add: POLLIN_def)
  from loop [where env = "?E ?s6", THEN c6, THEN mp, OF conjI [OF going this]]
  have w6: "net__proxy_connect example_mosq ''example.com'' 1883
      (example_env [ready_with ''HTTP/1.1 20'', ?s6]) =
      Some (MOSQ_ERR_PROXY,
         [Call_malloc response_size, Call_write example_request,
          Call_poll connect_timeout_ms, Call_read 0 (response_size - 1),
          Call_poll connect_timeout_ms, Call_free,
          Call_log MOSQ_LOG_ERR ''Proxy socket error during connect.'' []])"
    by (simp add: example_request_eq example_env_simps)

  have "0 < poll_ret (steps (?E (ready_with [])) (length ?F))
      \<and> poll_revents (steps (?E (ready_with [])) (length ?F)) AND POLLIN \<noteq> 0
      \<and> read_avail (steps (?E (ready_with [])) (length ?F)) = Some []"
    unfolding last by (simp add: ready_with_simps POLLIN_set)
  from loop [where env = "?E (ready_with [])", THEN c7, THEN mp, OF conjI [OF going this]]
  have w7: "net__proxy_connect example_mosq ''example.com'' 1883
      (example_env [ready_with ''HTTP/1.1 20'', ready_with []]) =
      Some (MOSQ_ERR_PROXY,
         [Call_malloc response_size, Call_write example_request,
          Call_poll connect_timeout_ms, Call_read 0 (response_size - 1),
          Call_poll connect_timeout_ms, Call_read 11 (response_size - 1 - 11), Call_free,
          Call_log MOSQ_LOG_ERR ''Proxy connection closed prematurely.'' []])"
    by (simp add: example_request_eq example_env_simps)

  let ?s8 = "\<lparr>poll_ret = 1, poll_revents = POLLIN, read_avail = None\<rparr>"
  have "0 < poll_ret (steps (?E ?s8) (length ?F))
      \<and> poll_revents (steps (?E ?s8) (length ?F)) AND POLLIN \<noteq> 0
      \<and> read_avail (steps (?E ?s8) (length ?F)) = None"
    unfolding last by (simp add: POLLIN_set)
  from loop [where env = "?E ?s8", THEN c8, THEN mp, OF conjI [OF going this]]
  have w8: "net__proxy_connect example_mosq ''example.com'' 1883
      (example_env [ready_with ''HTTP/1.1 20'', ?s8]) =
      Some (MOSQ_ERR_PROXY,
         [Call_malloc response_size, Call_write example_request,
          Call_poll connect_timeout_ms, Call_read 0 (response_size - 1),
          Call_poll connect_timeout_ms, Call_read 11 (response_size - 1 - 11), Call_free,
          Call_log MOSQ_LOG_ERR ''Error reading from proxy: %s.'' [''EIO'']])"
    by (simp add: example_request_eq example_env_simps)

  define big where "big = replicate 3000 (CHR ''a'')"
  have big: "big \<noteq> []" "length big = 3000" "set big = {CHR ''a''}"
    by (simp_all add: big_def)
  have "\<not> sublist terminator (take (response_size - 1) (concat [big]))"
  proof
    assume "sublist terminator (take (response_size - 1) (concat [big]))"
    then have "set terminator \<subseteq> set (take (response_size - 1) (concat [big]))"
      by (rule set_mono_sublist)
    also have "\<dots> \<subseteq> set (concat [big])"
      by (rule set_take_subset)
    finally show False
      by (simp add: big(3) terminator_def CRLF_def)
  qed
  then have never: "\<not> has_terminator (take (response_size - 1) (concat [big]))"
    by (rule no_sublist_no_terminator)
  have dl9: "delivers (steps (example_env (map ready_with [big] @ []))) 0 [big]"
    using big(1) by (simp only: example_delivers) simp
  have sm9: "[big] \<noteq> []" "length (concat (butlast [big])) < response_size - 1"
    "\<forall>i. 0 < i \<and> i < length [big] \<longrightarrow> \<not> has_terminator (concat (take i [big]))"
    "response_size - 1 \<le> length (concat [big])"
    by (simp_all add: big(2) response_size_def)
  note conjI [OF conjI [OF started conjI [OF sm9(1) conjI [OF dl9 conjI [OF sm9(2,3)]]]]
      conjI [OF sm9(4) never]]
  from at [where dest_host = "''example.com''" and frags = "[big]"
      and env = "example_env (map ready_with [big] @ [])", THEN c9, THEN mp, OF this]
  have w9: "net__proxy_connect example_mosq ''example.com'' 1883
      (example_env [ready_with big]) =
      Some (MOSQ_ERR_PROXY,
         [Call_malloc response_size, Call_write example_request,
          Call_poll connect_timeout_ms, Call_read 0 (response_size - 1), Call_free,
          Call_log MOSQ_LOG_ERR ''Proxy response headers too long or incomplete.'' []])"
    by (simp add: example_request_eq)

  define bad where "bad = ''HTTP/1.1 502 Bad Gateway'' @ CRLF @ CRLF"
  have kept: "take (response_size - 1) (concat [bad]) = bad"
    by (simp add: bad_def response_size_def CRLF_def)
  have cs: "c_str bad = bad"
    by (rule c_str_NUL_free) (simp add: bad_def NUL_def CRLF_def)
  have line: "strstr bad CRLF = Some 24" "take 24 bad = ''HTTP/1.1 502 Bad Gateway''"
    by (simp_all add: bad_def CRLF_def)
  have bad: "bad \<noteq> []" "has_terminator bad"
    "take 12 bad \<noteq> ''HTTP/1.1 200''" "take 12 bad \<noteq> ''HTTP/1.0 200''"
    unfolding has_terminator_def cs by (simp_all add: bad_def terminator_def CRLF_def)
  have dl10: "delivers (steps (example_env (map ready_with [bad] @ []))) 0 [bad]"
    using bad(1) by (simp only: example_delivers) simp
  have sm10: "[bad] \<noteq> []" "length (concat (butlast [bad])) < response_size - 1"
    "\<forall>i. 0 < i \<and> i < length [bad] \<longrightarrow> \<not> has_terminator (concat (take i [bad]))"
    by (simp_all add: response_size_def)
  have st10: "has_terminator (take (response_size - 1) (concat [bad]))
      \<and> take 12 (take (response_size - 1) (concat [bad])) \<noteq> ''HTTP/1.1 200''
      \<and> take 12 (take (response_size - 1) (concat [bad])) \<noteq> ''HTTP/1.0 200''"
    unfolding kept using bad(2,3,4) by (intro conjI)
  note conjI [OF conjI [OF started conjI [OF sm10(1) conjI [OF dl10 conjI [OF sm10(2,3)]]]]
      st10]
  from at [where dest_host = "''example.com''" and frags = "[bad]"
      and env = "example_env (map ready_with [bad] @ [])", THEN c10, THEN mp, OF this]
  have w10: "net__proxy_connect example_mosq ''example.com'' 1883
      (example_env [ready_with bad]) =
      Some (MOSQ_ERR_PROXY,
         [Call_malloc response_size, Call_write example_request,
          Call_poll connect_timeout_ms, Call_read 0 (response_size - 1),
          Call_log MOSQ_LOG_ERR ''Proxy CONNECT failed: %s'' [''HTTP/1.1 502 Bad Gateway''],
          Call_free])"
    unfolding kept cs by (simp add: example_request_eq line)

  from w1 w2 w3 w4 w5 w6 w7 w8 w9 [unfolded big_def] w10 [unfolded bad_def]
  show ?thesis
    by (simp add: response_size_def connect_timeout_ms_def)
qed

text \<open>
  C9 as stated fails: a wait that sees no event (Timeout) and a wait that fails
  (PollError) are reported with the same value \<open>MOSQ_ERR_PROXY\<close>; the runs
  differ in the logged message only.
\<close>

theorem failures_return_one_code_counterexample:
  "net__proxy_connect example_mosq ''example.com'' 1883 (example_env [no_event]) =
     Some (MOSQ_ERR_PROXY,
           [Call_malloc 2048, Call_write example_request, Call_poll 10000, Call_free,
            Call_log MOSQ_LOG_ERR ''Proxy connect timed out.'' []])
   \<and> net__proxy_connect example_mosq ''example.com'' 1883
       (example_env [\<lparr>poll_ret = - 1, poll_revents = 0, read_avail = None\<rparr>]) =
     Some (MOSQ_ERR_PROXY,
           [Call_malloc 2048, Call_write example_request, Call_poll 10000, Call_free,
            Call_log MOSQ_LOG_ERR ''Proxy poll error: %s.'' [''EIO'']])"
proof -
  let ?s0 = "loop_entry (map (\<lambda>i. CHR ''?'') [0..<response_size])
      (format_request ''example.com'' 1883 (proxy_auth_header example_mosq))"
  let ?bad = "\<lparr>poll_ret = - 1, poll_revents = 0, read_avail = None\<rparr>"
  have "loop_body (errno_text (example_env [no_event])) (steps (example_env [no_event]) 0) ?s0
      = Return MOSQ_ERR_PROXY (emit ?s0 [Call_poll connect_timeout_ms, Call_free,
          Call_log MOSQ_LOG_ERR ''Proxy connect timed out.'' []])"
    by (rule loop_body_timeout) (simp add: example_env_def no_event_def)
  from connect_returns_at_once [OF example_pre this]
  have timeout: "net__proxy_connect example_mosq ''example.com'' 1883 (example_env [no_event]) =
      Some (MOSQ_ERR_PROXY, effects (emit ?s0 [Call_poll connect_timeout_ms, Call_free,
          Call_log MOSQ_LOG_ERR ''Proxy connect timed out.'' []]))" .
  have "loop_body (errno_text (example_env [?bad])) (steps (example_env [?bad]) 0) ?s0
      = Return MOSQ_ERR_PROXY (emit ?s0 [Call_poll connect_timeout_ms, Call_free,
          Call_log MOSQ_LOG_ERR ''Proxy poll error: %s.'' [errno_text (example_env [?bad])]])"
    by (rule loop_body_poll_error) (simp add: example_env_def)
  from connect_returns_at_once [OF example_pre this]
  have poll_error: "net__proxy_connect example_mosq ''example.com'' 1883 (example_env [?bad]) =
      Some (MOSQ_ERR_PROXY, effects (emit ?s0 [Call_poll connect_timeout_ms, Call_free,
          Call_log MOSQ_LOG_ERR ''Proxy poll error: %s.'' [errno_text (example_env [?bad])]]))" .
  show ?thesis
    unfolding timeout poll_error
    by (simp add: emit_def loop_entry_def example_request_eq example_env_simps
        response_size_def connect_timeout_ms_def)
qed

subsection \<open>C10: an event without \<^verbatim>\<open>POLLIN\<close>\<close>

text \<open>
  C10. Let the buffer be allocated and the request written in full, and let the
  fragments \<open>frags\<close> (possibly none) have been read without completing the
  terminator or filling the buffer. If the next wait reports an event whose
  \<^verbatim>\<open>revents\<close> lack \<^verbatim>\<open>POLLIN\<close>, the function returns \<open>MOSQ_ERR_PROXY\<close> at once: after
  that poll it makes no read, it only releases the buffer and logs
  "Proxy socket error during connect.". In whatever state the iteration starts,
  its body leaves the response buffer and the cursor as they were.
\<close>

theorem event_without_POLLIN:
  assumes alloc: "malloc_res env = Some junk"
    and fits: "length (format_request dest_host dest_port (proxy_auth_header mosq)) < request_size"
    and written: "write_ret env
        = int (length (format_request dest_host dest_port (proxy_auth_header mosq)))"
    and frags: "delivers (steps env) 0 frags"
    and room: "length (concat frags) < response_size - 1"
    and incomplete: "\<And>i. 0 < i \<Longrightarrow> i \<le> length frags
        \<Longrightarrow> \<not> has_terminator (concat (take i frags))"
    and event: "0 < poll_ret (steps env (length frags))"
    and no_in: "poll_revents (steps env (length frags)) AND POLLIN = 0"
  shows "net__proxy_connect mosq dest_host dest_port env =
        Some (MOSQ_ERR_PROXY,
              [Call_malloc response_size,
               Call_write (format_request dest_host dest_port (proxy_auth_header mosq))]
              @ reads_trace 0 frags
              @ [Call_poll connect_timeout_ms, Call_free,
                 Call_log MOSQ_LOG_ERR ''Proxy socket error during connect.'' []])
    \<and> (\<forall>e s. \<exists>s'. loop_body e (steps env (length frags)) s = Return MOSQ_ERR_PROXY s'
          \<and> response s' = response s \<and> total_read s' = total_read s
          \<and> effects s' = effects s @
              [Call_poll connect_timeout_ms, Call_free,
               Call_log MOSQ_LOG_ERR ''Proxy socket error during connect.'' []])"
proof -
  let ?req = "format_request dest_host dest_port (proxy_auth_header mosq)"
  let ?tail = "[Call_poll connect_timeout_ms, Call_free,
               Call_log MOSQ_LOG_ERR ''Proxy socket error during connect.'' []]"
  have body: "loop_body e (steps env (length frags)) s = Return MOSQ_ERR_PROXY (emit s ?tail)"
    for e s
    using event no_in by (rule loop_body_no_POLLIN)
  from fragments_continue [OF frags room incomplete, of "errno_text env" junk ?req]
  obtain s where loop: "accumulate (errno_text env) (steps env) 0
        (loop_entry (map junk [0..<response_size]) ?req)
        = accumulate (errno_text env) (steps env) (length frags) s"
    and s: "holds s (concat frags)"
    and eff: "effects s = [Call_malloc response_size, Call_write ?req] @ reads_trace 0 frags"
    by blast
  from s room have "total_read s < response_size - 1"
    by (simp add: holds_def)
  then have "accumulate (errno_text env) (steps env) (length frags) s
      = Returned MOSQ_ERR_PROXY (emit s ?tail)"
    using body by (rule accumulate_returns)
  with loop eff have "net__proxy_connect mosq dest_host dest_port env =
      Some (MOSQ_ERR_PROXY,
            [Call_malloc response_size, Call_write ?req] @ reads_trace 0 frags @ ?tail)"
    by (simp add: connect_enters_loop [OF alloc fits written] emit_def)
  moreover have "\<exists>s'. loop_body e (steps env (length frags)) s = Return MOSQ_ERR_PROXY s'
          \<and> response s' = response s \<and> total_read s' = total_read s
          \<and> effects s' = effects s @ ?tail" for e s
    by (simp add: body emit_def)
  ultimately show ?thesis
    by blast
qed

theorem event_without_POLLIN_witness:
  "net__proxy_connect example_mosq ''example.com'' 1883
     (example_env [ready_with ''HTTP/1.1 20'',
                   \<lparr>poll_ret = 1, poll_revents = 0x0018, read_avail = Some (''0 OK'' @ CRLF @ CRLF)\<rparr>]) =
   Some (MOSQ_ERR_PROXY,
         [Call_malloc 2048, Call_write example_request,
          Call_poll 10000, Call_read 0 2047,
          Call_poll 10000, Call_free,
          Call_log MOSQ_LOG_ERR ''Proxy socket error during connect.'' []])"
proof -
  let ?hup = "\<lparr>poll_ret = 1, poll_revents = 0x0018, read_avail = Some (''0 OK'' @ CRLF @ CRLF)\<rparr>"
  let ?frags = "[''HTTP/1.1 20'']"
  let ?env = "example_env (map ready_with ?frags @ [?hup])"
  have "net__proxy_connect example_mosq ''example.com'' 1883 ?env =
        Some (MOSQ_ERR_PROXY,
              [Call_malloc response_size,
               Call_write (format_request ''example.com'' 1883 (proxy_auth_header example_mosq))]
              @ reads_trace 0 ?frags
              @ [Call_poll connect_timeout_ms, Call_free,
                 Call_log MOSQ_LOG_ERR ''Proxy socket error during connect.'' []])"
  proof (rule event_without_POLLIN [THEN conjunct1])
    show "malloc_res ?env = Some (\<lambda>i. CHR ''?'')"
      by (simp add: example_env_simps)
    show "length (format_request ''example.com'' 1883 (proxy_auth_header example_mosq))
        < request_size"
      by (simp add: example_request_eq example_request_length request_size_def)
    show "write_ret ?env
        = int (length (format_request ''example.com'' 1883 (proxy_auth_header example_mosq)))"
      by (simp add: example_request_eq example_request_length example_env_simps)
    show "delivers (steps ?env) 0 ?frags"
      by (simp only: example_delivers) simp
    show "length (concat ?frags) < response_size - 1"
      by (simp add: response_size_def)
    show "\<not> has_terminator (concat (take i ?frags))" if "0 < i" "i \<le> length ?frags" for i
    proof -
      from that have "i = 1" by simp
      then show ?thesis
        by (simp add: has_terminator_def c_str_def NUL_def terminator_def CRLF_def)
    qed
    show "0 < poll_ret (steps ?env (length ?frags))"
      by (simp add: example_env_def)
    show "poll_revents (steps ?env (length ?frags)) AND POLLIN = 0"
      by (simp add: example_env_def POLLIN_def)
  qed
  then show ?thesis
    by (simp add: example_request_eq response_size_def connect_timeout_ms_def)
qed

end
